theory Spec2Isabelle
  imports Main "HOL-Library.Word" "HOL-Library.Sublist" "HOL-Library.Multiset"
begin

section \<open>Shared vocabulary\<close>

text \<open>
  The sources are C++ with global mutable state, calls into the CUDA driver, the
  dynamic loader and the task pool. The embedding passes the state explicitly, returns
  errors as values and records every call that leaves the program as an entry of a
  trace, in the order the calls are made.
\<close>

text \<open>Arguments of a printf-style message: the format string is kept as the source has
  it, the arguments beside it.\<close>

datatype fmt_arg = S string | U nat | I int | Z nat

text \<open>Modelled from the spec: the LogLevel enumeration is declared outside src/
  (tests/test.h names its members). Section 6 lists the five levels from the quietest to
  the most verbose; \<open>level_rank\<close> is the position the comparisons of the source use.\<close>

datatype LogLevel = Error | Warn | Info | Debug | Trace

fun level_rank :: "LogLevel \<Rightarrow> nat" where
  "level_rank Error = 1"
| "level_rank Warn = 2"
| "level_rank Info = 3"
| "level_rank Debug = 4"
| "level_rank Trace = 5"

section \<open>common.h: the scope guard\<close>

text \<open>
  \<open>detail::scope_guard<Func>\<close> stores a copy of a function object. The struct declares a
  constructor from \<open>Func\<close>, a move constructor and a move assignment; copying is deleted.
  It declares no destructor, so the implicitly defined one runs: it destroys the member
  \<open>func\<close> and executes no statement. What happens to the function object is recorded
  as a list of \<open>guard_event\<close>s.
\<close>

datatype 'f guard_event = CopyFunc 'f | MoveFunc 'f | DestroyFunc 'f | InvokeFunc 'f

datatype 'f scope_guard_t = Scope_guard (func: 'f)

text \<open>\<open>scope_guard(const Func &func) : func(func) { }\<close>\<close>

definition scope_guard_ctor :: "'f \<Rightarrow> 'f scope_guard_t \<times> 'f guard_event list" where
  "scope_guard_ctor f = (Scope_guard f, [CopyFunc f])"

text \<open>\<open>scope_guard(scope_guard &&g) : func(std::move(g.func)) {}\<close>\<close>

definition scope_guard_move_ctor :: "'f scope_guard_t \<Rightarrow> 'f scope_guard_t \<times> 'f guard_event list" where
  "scope_guard_move_ctor g = (Scope_guard (func g), [MoveFunc (func g)])"

text \<open>\<open>scope_guard &operator=(scope_guard &&g) { func = std::move(g.func); }\<close>: the body
  assigns the member and then flows off the end of a function that returns a reference.
  The behaviour of a call is undefined, so a call has no outcome here.\<close>

definition scope_guard_move_assign ::
    "'f scope_guard_t \<Rightarrow> 'f scope_guard_t \<Rightarrow> ('f scope_guard_t \<times> 'f guard_event list) option" where
  "scope_guard_move_assign this g = None"

text \<open>The implicit destructor: the member is destroyed, nothing is called.\<close>

definition scope_guard_dtor :: "'f scope_guard_t \<Rightarrow> 'f guard_event list" where
  "scope_guard_dtor g = [DestroyFunc (func g)]"

text \<open>The helper \<open>scope_guard(func)\<close> returns \<open>detail::scope_guard<Func>(func)\<close>.\<close>

definition scope_guard :: "'f \<Rightarrow> 'f scope_guard_t \<times> 'f guard_event list" where
  "scope_guard f = scope_guard_ctor f"

text \<open>
  A block \<open>{ auto g = scope_guard(f); body }\<close>: the guard is built, the body runs and
  leaves its own events, and the guard is destroyed on the way out.
\<close>

definition guarded_scope :: "'f \<Rightarrow> 'f guard_event list \<Rightarrow> 'f guard_event list" where
  "guarded_scope f body = (case scope_guard f of (g, es) \<Rightarrow> es @ body @ scope_guard_dtor g)"

fun is_invoke :: "'f guard_event \<Rightarrow> bool" where
  "is_invoke (InvokeFunc f) = True"
| "is_invoke _ = False"

section \<open>init.cpp: the state of the compiler\<close>

text \<open>
  Pointers and driver handles are natural numbers; a pointer that may be null is an
  \<open>option\<close>. The fields are those the functions of init.cpp read or write.
\<close>

datatype CUresult = CUDA_SUCCESS | CUDA_ERROR_PEER_ACCESS_ALREADY_ENABLED | CUDA_ERROR nat

text \<open>The driver entry points init.cpp calls, with the arguments that identify the call.\<close>

datatype cu_call =
    CuStreamSynchronize nat
  | CuCtxSynchronize
  | CuStreamCreate
  | CuEventCreate
  | CuEventDestroy nat
  | CuStreamDestroy nat
  | CuDeviceCanAccessPeer int int
  | CuCtxEnablePeerAccess nat
  | CuDevicePrimaryCtxRelease int

text \<open>
  The driver is outside the program: it is a parameter. \<open>cu_result\<close> is the status a
  call returns when issued with the given context current (\<open>None\<close>: no
  \<open>scoped_set_context\<close> guard is alive), \<open>peer_ok\<close> the flag \<open>cuDeviceCanAccessPeer\<close>
  writes, \<open>new_stream\<close> and \<open>new_event\<close> the handles the create calls write.
\<close>

record Driver =
  cu_result :: "nat option \<Rightarrow> cu_call \<Rightarrow> CUresult"
  peer_ok :: "int \<Rightarrow> int \<Rightarrow> bool"
  new_stream :: "nat \<Rightarrow> nat"
  new_event :: "nat \<Rightarrow> nat"

text \<open>What leaves the program, in order: mutex operations, the snapshot of the
  ThreadState list, driver calls (with the current context), waits on the task pool, log
  calls, calls of functions of the repository that are not under src/, the allocation
  and release of ThreadState objects, and the calls of the dynamic loader and the file
  system.\<close>

datatype effect =
    Unlock
  | Lock
  | Snapshot "nat list"
  | Cu "nat option" cu_call
  | TaskWaitAndRelease "nat option"
  | Log LogLevel string "fmt_arg list"
  | Call string "int list"
  | New nat
  | Delete nat
  | DeleteChain "nat option"
  | Dlopen string
  | GlobCall string
  | Lstat string

datatype error =
    Raise string "fmt_arg list"
  | Fail string "fmt_arg list"
  | CudaError CUresult
  | DanglingPointer nat

record ThreadState =
  cuda :: bool
  device :: int
  ts_context :: nat
  stream :: nat
  event :: nat
  task :: "nat option"
  active_mask :: "nat list"
  release_chain :: "nat option"

record Device =
  dev_id :: int
  dev_context :: nat
  compute_capability :: int
  shared_memory_bytes :: nat
  num_sm :: nat
  sub_streams :: "nat list"
  sub_events :: "nat list"

record Variable =
  ref_count_ext :: nat
  ref_count_int :: nat
  scatter :: bool
  dep :: "nat list"

text \<open>
  The hash maps of the state are association lists in iteration order (the order is the
  container's, and the model holds for any). \<open>heap\<close> holds the ThreadState objects that
  are alive; \<open>thread_state_cuda\<close> and \<open>thread_state_llvm\<close> are the thread-local pointers
  of the calling thread.
\<close>

record State =
  has_llvm :: bool
  has_cuda :: bool
  devices :: "Device list"
  tss :: "nat list"
  heap :: "nat \<Rightarrow> ThreadState option"
  thread_state_cuda :: "nat option"
  thread_state_llvm :: "nat option"
  mutex_locked :: bool
  log_level_stderr :: LogLevel
  log_level_callback :: LogLevel
  variables :: "(nat \<times> Variable) list"
  cse_cache :: "((nat \<times> nat \<times> nat \<times> nat) \<times> nat) list"
  extra :: "(nat \<times> nat) list"
  variable_from_ptr :: "(nat \<times> nat) list"
  kernel_cache :: "((nat \<times> int) \<times> nat) list"
  jit_temp_path :: "string option"
  trace :: "effect list"

type_synonym result = "(error \<times> State) + State"

definition and_then :: "('e + 'a) \<Rightarrow> ('a \<Rightarrow> 'e + 'b) \<Rightarrow> 'e + 'b" where
  "and_then r f = (case r of Inl e \<Rightarrow> Inl e | Inr x \<Rightarrow> f x)"

definition emit :: "effect \<Rightarrow> State \<Rightarrow> State" where
  "emit e s = s\<lparr>trace := trace s @ [e]\<rparr>"

text \<open>Modelled from the spec: \<open>jit_log\<close>, \<open>jit_raise\<close> and \<open>jit_fail\<close> are defined outside
  src/ (log.h). Section 6: a message goes to two sinks, each with its own threshold;
  Section 7: a raised error returns to the caller, a fatal one ends the process. The
  model records the call of \<open>jit_log\<close>; \<open>jit_raise\<close> and \<open>jit_fail\<close> end the run with the
  state as it is at the call.\<close>

definition jit_log :: "LogLevel \<Rightarrow> string \<Rightarrow> fmt_arg list \<Rightarrow> State \<Rightarrow> State" where
  "jit_log l f as s = emit (Log l f as) s"

definition jit_raise :: "string \<Rightarrow> fmt_arg list \<Rightarrow> State \<Rightarrow> result" where
  "jit_raise f as s = Inl (Raise f as, s)"

definition jit_fail :: "string \<Rightarrow> fmt_arg list \<Rightarrow> State \<Rightarrow> result" where
  "jit_fail f as s = Inl (Fail f as, s)"

text \<open>A driver call made while \<open>ctx\<close> is current: its status and the trace entry.\<close>

definition cu :: "Driver \<Rightarrow> nat option \<Rightarrow> cu_call \<Rightarrow> State \<Rightarrow> CUresult \<times> State" where
  "cu drv ctx c s = (cu_result drv ctx c, emit (Cu ctx c) s)"

text \<open>Modelled from the spec: the macro \<open>cuda_check\<close> is defined outside src/. Section 7:
  errors of the backend API are translated at the boundary; a status other than
  \<open>CUDA_SUCCESS\<close> ends the run with that status.\<close>

definition cuda_check :: "CUresult \<Rightarrow> State \<Rightarrow> result" where
  "cuda_check rv s = (if rv = CUDA_SUCCESS then Inr s else Inl (CudaError rv, s))"

definition cu_checked :: "Driver \<Rightarrow> nat option \<Rightarrow> cu_call \<Rightarrow> State \<Rightarrow> result" where
  "cu_checked drv ctx c s = (case cu drv ctx c s of (rv, s1) \<Rightarrow> cuda_check rv s1)"

text \<open>\<open>unlock_guard\<close> of common.h: the constructor unlocks the mutex, the destructor
  locks it again.\<close>

definition unlock_guard_ctor :: "State \<Rightarrow> State" where
  "unlock_guard_ctor s = emit Unlock (s\<lparr>mutex_locked := False\<rparr>)"

definition unlock_guard_dtor :: "State \<Rightarrow> State" where
  "unlock_guard_dtor s = emit Lock (s\<lparr>mutex_locked := True\<rparr>)"

text \<open>\<open>task_wait_and_release\<close> belongs to the task pool: it blocks until the task is
  done and accepts a null handle.\<close>

definition task_wait_and_release :: "nat option \<Rightarrow> State \<Rightarrow> State" where
  "task_wait_and_release t s = emit (TaskWaitAndRelease t) s"

subsection \<open>Synchronisation\<close>

text \<open>\<open>jit_sync_thread(ThreadState *ts)\<close>. Reading through a pointer to an object that
  is not alive is undefined in C++; the model ends with \<open>DanglingPointer\<close>.\<close>

definition jit_sync_thread_ts :: "Driver \<Rightarrow> nat option \<Rightarrow> State \<Rightarrow> result" where
  "jit_sync_thread_ts drv p s =
    (case p of
       None \<Rightarrow> Inr s
     | Some a \<Rightarrow>
        (case heap s a of
           None \<Rightarrow> Inl (DanglingPointer a, s)
         | Some ts \<Rightarrow>
            if cuda ts then
              cu_checked drv (Some (ts_context ts)) (CuStreamSynchronize (stream ts)) s
            else
              (let s1 = task_wait_and_release (task ts) s
               in Inr (s1\<lparr>heap := (heap s1)(a \<mapsto> ts\<lparr>task := None\<rparr>)\<rparr>))))"

text \<open>\<open>jit_sync_thread()\<close>: the guard unlocks on entry and locks on exit.\<close>

definition jit_sync_thread :: "Driver \<Rightarrow> State \<Rightarrow> result" where
  "jit_sync_thread drv s =
    and_then (jit_sync_thread_ts drv (thread_state_cuda s) (unlock_guard_ctor s)) (\<lambda>s1.
    and_then (jit_sync_thread_ts drv (thread_state_llvm s1) s1) (\<lambda>s2.
    Inr (unlock_guard_dtor s2)))"

text \<open>The loop \<open>for (ThreadState *ts : tss) if (!ts->cuda) jit_sync_thread(ts);\<close>\<close>

fun sync_cpu_loop :: "Driver \<Rightarrow> nat list \<Rightarrow> State \<Rightarrow> result" where
  "sync_cpu_loop drv [] s = Inr s"
| "sync_cpu_loop drv (a # as) s =
    (case heap s a of
       None \<Rightarrow> Inl (DanglingPointer a, s)
     | Some ts \<Rightarrow>
        if \<not> cuda ts then and_then (jit_sync_thread_ts drv (Some a) s) (sync_cpu_loop drv as)
        else sync_cpu_loop drv as s)"

text \<open>The first block of \<open>jit_sync_device\<close>: the context of the calling thread's CUDA
  ThreadState, synchronised inside an \<open>unlock_guard\<close>.\<close>

definition sync_device_gpu :: "Driver \<Rightarrow> State \<Rightarrow> result" where
  "sync_device_gpu drv s =
    (case thread_state_cuda s of
       None \<Rightarrow> Inr s
     | Some a \<Rightarrow>
        (case heap s a of
           None \<Rightarrow> Inl (DanglingPointer a, unlock_guard_ctor s)
         | Some ts \<Rightarrow>
            and_then (cu_checked drv (Some (ts_context ts)) CuCtxSynchronize (unlock_guard_ctor s))
              (\<lambda>s1. Inr (unlock_guard_dtor s1))))"

text \<open>The second block: entered only when the calling thread has an LLVM ThreadState;
  the list is copied, then the guard unlocks for the loop.\<close>

definition sync_device_cpu :: "Driver \<Rightarrow> State \<Rightarrow> result" where
  "sync_device_cpu drv s =
    (if thread_state_llvm s \<noteq> None then
       (let snapshot = tss s;
            s1 = unlock_guard_ctor (emit (Snapshot snapshot) s)
        in and_then (sync_cpu_loop drv snapshot s1) (\<lambda>s2. Inr (unlock_guard_dtor s2)))
     else Inr s)"

definition jit_sync_device :: "Driver \<Rightarrow> State \<Rightarrow> result" where
  "jit_sync_device drv s = and_then (sync_device_gpu drv s) (sync_device_cpu drv)"

text \<open>The loop \<open>for (ThreadState *ts : tss) jit_sync_thread(ts);\<close>\<close>

fun sync_all_loop :: "Driver \<Rightarrow> nat list \<Rightarrow> State \<Rightarrow> result" where
  "sync_all_loop drv [] s = Inr s"
| "sync_all_loop drv (a # as) s =
    and_then (jit_sync_thread_ts drv (Some a) s) (sync_all_loop drv as)"

definition jit_sync_all_devices :: "Driver \<Rightarrow> State \<Rightarrow> result" where
  "jit_sync_all_devices drv s =
    (let snapshot = tss s;
         s1 = unlock_guard_ctor (emit (Snapshot snapshot) s)
     in and_then (sync_all_loop drv snapshot s1) (\<lambda>s2. Inr (unlock_guard_dtor s2)))"

subsection \<open>Creating a ThreadState\<close>

text \<open>The object \<open>new ThreadState()\<close> yields: every member zero or empty.\<close>

definition ThreadState0 :: ThreadState where
  "ThreadState0 = \<lparr>cuda = False, device = 0, ts_context = 0, stream = 0, event = 0,
     task = None, active_mask = [], release_chain = None\<rparr>"

definition new_ts :: "nat \<Rightarrow> State \<Rightarrow> State" where
  "new_ts p s = (emit (New p) s)\<lparr>heap := (heap s)(p \<mapsto> ThreadState0)\<rparr>"

definition delete_ts :: "nat \<Rightarrow> State \<Rightarrow> State" where
  "delete_ts p s = (emit (Delete p) s)\<lparr>heap := (heap s)(p := None)\<rparr>"

text \<open>A write through the pointer \<open>p\<close>.\<close>

definition ts_update :: "nat \<Rightarrow> (ThreadState \<Rightarrow> ThreadState) \<Rightarrow> State \<Rightarrow> State" where
  "ts_update p f s = s\<lparr>heap := (heap s)(p := map_option f (heap s p))\<rparr>"

text \<open>The build target selects the file names of the messages.\<close>

datatype platform = Win32 | Linux | OtherOS

fun cuda_fname :: "platform \<Rightarrow> string" where
  "cuda_fname Win32 = ''nvcuda.dll''"
| "cuda_fname Linux = ''libcuda.so''"
| "cuda_fname OtherOS = ''libcuda.dylib''"

fun llvm_fname :: "platform \<Rightarrow> string" where
  "llvm_fname Win32 = ''LLVM-C.dll''"
| "llvm_fname Linux = ''libLLVM.so''"
| "llvm_fname OtherOS = ''libLLVM.dylib''"

definition msg_cuda_inactive :: string where
  "msg_cuda_inactive =
     ''jit_init_thread_state(): the CUDA backend is inactive because the CUDA driver library (''
     @ [CHR 0x22] @ ''%s'' @ [CHR 0x22]
     @ '') could not be found! Set the ENOKI_LIBCUDA_PATH environment variable to specify its path.''"

definition msg_cuda_no_devices :: string where
  "msg_cuda_no_devices =
     ''jit_init_thread_state(): the CUDA backend is inactive because no compatible CUDA devices were found on your system.''"

definition msg_llvm_inactive :: string where
  "msg_llvm_inactive =
     ''jit_init_thread_state(): the LLVM backend is inactive because the LLVM shared library (''
     @ [CHR 0x22] @ ''%s'' @ [CHR 0x22]
     @ '') could not be found! Set the ENOKI_LIBLLVM_PATH environment variable to specify its path.''"

text \<open>
  \<open>jit_init_thread_state(bool cuda)\<close>. \<open>p\<close> is the address \<open>operator new\<close> returns. On
  success the function returns the pointer; both \<open>jit_raise\<close> calls come after
  \<open>delete ts\<close>.
\<close>

definition jit_init_thread_state ::
    "platform \<Rightarrow> Driver \<Rightarrow> nat \<Rightarrow> bool \<Rightarrow> State \<Rightarrow> (error \<times> State) + (nat \<times> State)" where
  "jit_init_thread_state pf drv p cuda_arg s0 =
    (let s = new_ts p s0 in
     if cuda_arg then
       if \<not> has_cuda s then
         Inl (Raise msg_cuda_inactive [S (cuda_fname pf)], delete_ts p s)
       else if devices s = [] then
         Inl (Raise msg_cuda_no_devices [], delete_ts p s)
       else
         (let c = dev_context (hd (devices s));
              s1 = ts_update p (\<lambda>ts. ts\<lparr>device := 0, ts_context := c\<rparr>) s
          in case cu_checked drv (Some c) CuStreamCreate s1 of
               Inl e \<Rightarrow> Inl e
             | Inr s2 \<Rightarrow>
                (case cu_checked drv (Some c) CuEventCreate
                        (ts_update p (\<lambda>ts. ts\<lparr>stream := new_stream drv c\<rparr>) s2) of
                   Inl e \<Rightarrow> Inl e
                 | Inr s3 \<Rightarrow>
                    (let s4 = ts_update p (\<lambda>ts. ts\<lparr>event := new_event drv c\<rparr>) s3;
                         s5 = s4\<lparr>thread_state_cuda := Some p\<rparr>;
                         s6 = ts_update p (\<lambda>ts. ts\<lparr>cuda := cuda_arg\<rparr>) s5
                     in Inr (p, s6\<lparr>tss := tss s6 @ [p]\<rparr>))))
     else
       if \<not> has_llvm s then
         Inl (Raise msg_llvm_inactive [S (llvm_fname pf)], delete_ts p s)
       else
         (let s1 = s\<lparr>thread_state_llvm := Some p\<rparr>;
              s2 = ts_update p (\<lambda>ts. ts\<lparr>device := - 1\<rparr>) s1;
              s3 = ts_update p (\<lambda>ts. ts\<lparr>cuda := cuda_arg\<rparr>) s2
          in Inr (p, s3\<lparr>tss := tss s3 @ [p]\<rparr>)))"

subsection \<open>Peer-to-peer access (the last loop of \<open>jit_init\<close>)\<close>

text \<open>
  The body of the inner loop over \<open>b\<close>, for a fixed \<open>a\<close>: equal ids are skipped; the
  query runs under \<open>a\<close>'s context; \<open>CUDA_ERROR_PEER_ACCESS_ALREADY_ENABLED\<close> continues
  with the next device before \<open>cuda_check\<close> sees the status.
\<close>

fun p2p_inner :: "Driver \<Rightarrow> Device \<Rightarrow> Device list \<Rightarrow> State \<Rightarrow> result" where
  "p2p_inner drv a [] s = Inr s"
| "p2p_inner drv a (b # bs) s =
    (if dev_id a = dev_id b then p2p_inner drv a bs s
     else
       and_then
         (cu_checked drv (Some (dev_context a)) (CuDeviceCanAccessPeer (dev_id a) (dev_id b)) s)
         (\<lambda>s1.
           if peer_ok drv (dev_id a) (dev_id b) then
             (let s2 = jit_log Debug '' - Enabling peer access from device %i -> %i''
                         [I (dev_id a), I (dev_id b)] s1
              in case cu drv (Some (dev_context a)) (CuCtxEnablePeerAccess (dev_context b)) s2 of
                   (rv, s3) \<Rightarrow>
                     if rv = CUDA_ERROR_PEER_ACCESS_ALREADY_ENABLED then p2p_inner drv a bs s3
                     else and_then (cuda_check rv s3) (p2p_inner drv a bs))
           else p2p_inner drv a bs s1))"

fun p2p_outer :: "Driver \<Rightarrow> Device list \<Rightarrow> Device list \<Rightarrow> State \<Rightarrow> result" where
  "p2p_outer drv [] ds s = Inr s"
| "p2p_outer drv (a # as) ds s = and_then (p2p_inner drv a ds s) (p2p_outer drv as ds)"

text \<open>Lines 158 to 176 of \<open>jit_init\<close>: both loops run over \<open>state.devices\<close>, the devices
  the enumeration before them accepted.\<close>

definition jit_init_p2p :: "Driver \<Rightarrow> State \<Rightarrow> result" where
  "jit_init_p2p drv s = p2p_outer drv (devices s) (devices s) s"

subsection \<open>Reference counts\<close>

text \<open>Modelled from the spec: \<open>jit_var_dec_ref_ext\<close> is defined outside src/ (var.h).
  Section 4.5: when the counts of a Variable reach zero it is collected: the counts of
  its deps are decremented (recursively), the Variable leaves the VariableMap and every
  CSE entry for it is purged. Invariant I3: a Variable is live while the sum of its two
  counts is positive. A dep of \<open>0\<close> encodes absence (Section 3). The function touches
  the VariableMap and the CSE cache only, so it is written on that pair; the recursion
  is the worklist \<open>collect_deps\<close>; an id that is not in the map is left alone.\<close>

type_synonym var_store =
  "(nat \<times> Variable) list \<times> ((nat \<times> nat \<times> nat \<times> nat) \<times> nat) list"

definition remove_variable :: "nat \<Rightarrow> var_store \<Rightarrow> var_store" where
  "remove_variable i st =
     (filter (\<lambda>kv. fst kv \<noteq> i) (fst st), filter (\<lambda>kv. snd kv \<noteq> i) (snd st))"

definition store_variable :: "nat \<Rightarrow> Variable \<Rightarrow> var_store \<Rightarrow> var_store" where
  "store_variable i v st = (map (\<lambda>kv. if fst kv = i then (i, v) else kv) (fst st), snd st)"

function collect_deps :: "nat list \<Rightarrow> var_store \<Rightarrow> var_store" where
  "collect_deps [] st = st"
| "collect_deps (i # w) st =
    (case map_of (fst st) i of
       None \<Rightarrow> collect_deps w st
     | Some v \<Rightarrow>
        if ref_count_int v - 1 = 0 \<and> ref_count_ext v = 0
        then collect_deps (filter (\<lambda>d. d \<noteq> 0) (dep v) @ w) (remove_variable i st)
        else collect_deps w (store_variable i (v\<lparr>ref_count_int := ref_count_int v - 1\<rparr>) st))"
  by pat_completeness auto
termination
proof (relation "measures [\<lambda>(w, st). length (fst st), \<lambda>(w, st). length w]", goal_cases)
  case 1
  show ?case by simp
next
  case (2 i w st)
  show ?case by simp
next
  case (3 i w st v)
  from 3(1) have "(i, v) \<in> set (fst st)" by (rule map_of_SomeD)
  then have "length (filter (\<lambda>kv. fst kv \<noteq> i) (fst st)) < length (fst st)"
    by (intro length_filter_less[of "(i, v)"]) auto
  then show ?case by (simp add: remove_variable_def)
next
  case (4 i w st v)
  show ?case by (simp add: store_variable_def)
qed

definition var_dec_ref_ext :: "nat \<Rightarrow> var_store \<Rightarrow> var_store" where
  "var_dec_ref_ext i st =
    (case map_of (fst st) i of
       None \<Rightarrow> st
     | Some v \<Rightarrow>
        if ref_count_int v = 0 \<and> ref_count_ext v - 1 = 0
        then collect_deps (filter (\<lambda>d. d \<noteq> 0) (dep v)) (remove_variable i st)
        else store_variable i (v\<lparr>ref_count_ext := ref_count_ext v - 1\<rparr>) st)"

definition jit_var_dec_ref_ext :: "nat \<Rightarrow> State \<Rightarrow> State" where
  "jit_var_dec_ref_ext i s =
    (case var_dec_ref_ext i (variables s, cse_cache s) of
       (vs, cs) \<Rightarrow> s\<lparr>variables := vs, cse_cache := cs\<rparr>)"

subsection \<open>Shutdown\<close>

text \<open>The body of \<open>for (ThreadState *ts : state.tss)\<close>.\<close>

fun release_thread_states :: "Driver \<Rightarrow> nat list \<Rightarrow> State \<Rightarrow> result" where
  "release_thread_states drv [] s = Inr s"
| "release_thread_states drv (a # as) s =
    (let s0 = emit (Call ''jit_free_flush'' [int a]) s in
     case heap s0 a of
       None \<Rightarrow> Inl (DanglingPointer a, s0)
     | Some ts \<Rightarrow>
        and_then
          (if cuda ts then
             and_then (cu_checked drv (Some (ts_context ts)) (CuStreamSynchronize (stream ts)) s0) (\<lambda>s1.
             and_then (cu_checked drv (Some (ts_context ts)) (CuEventDestroy (event ts)) s1) (\<lambda>s2.
             cu_checked drv (Some (ts_context ts)) (CuStreamDestroy (stream ts)) s2))
           else
             (let s1 = task_wait_and_release (task ts) s0
              in Inr (if active_mask ts \<noteq> []
                      then jit_log Warn ''jit_shutdown(): leaked %zu active masks!''
                             [Z (length (active_mask ts))] s1
                      else s1)))
          (\<lambda>s3. release_thread_states drv as
                   (delete_ts a (emit (DeleteChain (release_chain ts)) s3))))"

definition shutdown_thread_states :: "Driver \<Rightarrow> State \<Rightarrow> result" where
  "shutdown_thread_states drv s =
    (if tss s \<noteq> [] then
       and_then
         (release_thread_states drv (tss s)
            (jit_log Info ''jit_shutdown(): releasing %zu thread state%s ..''
               [Z (length (tss s)), S (if length (tss s) > 1 then ''s'' else [])] s))
         (\<lambda>s1. Inr ((emit (Call ''pool_destroy'' []) s1)\<lparr>tss := []\<rparr>))
     else Inr s)"

fun release_kernels :: "((nat \<times> int) \<times> nat) list \<Rightarrow> State \<Rightarrow> State" where
  "release_kernels [] s = s"
| "release_kernels (((str, dev), k) # ks) s =
    release_kernels ks
      (emit (Call ''free'' [int str]) (emit (Call ''jit_kernel_free'' [dev, int k]) s))"

definition shutdown_kernel_cache :: "State \<Rightarrow> State" where
  "shutdown_kernel_cache s =
    (if kernel_cache s \<noteq> [] then
       (release_kernels (kernel_cache s)
          (jit_log Info ''jit_shutdown(): releasing %zu kernel%s ..''
             [Z (length (kernel_cache s)), S (if length (kernel_cache s) > 1 then ''s'' else [])] s))
       \<lparr>kernel_cache := []\<rparr>
     else s)"

text \<open>The ids the first loop of the leak pass pushes to \<open>leaked_scatters\<close>.\<close>

definition leaked_scatters :: "(nat \<times> Variable) list \<Rightarrow> nat list" where
  "leaked_scatters vs =
     map fst (filter (\<lambda>kv. scatter (snd kv) \<and> ref_count_ext (snd kv) = 1
                            \<and> ref_count_int (snd kv) = 0) vs)"

definition msg_leak_header :: string where
  "msg_leak_header = ''jit_shutdown(): detected variable leaks:''"

definition msg_leak_variable :: string where
  "msg_leak_variable =
     '' - variable %u is still being referenced! (internal references=%u, external references=%u)''"

definition msg_leak_skip :: string where
  "msg_leak_skip = '' - (skipping remainder)''"

definition msg_leak_summary :: string where
  "msg_leak_summary = ''jit_shutdown(): %u variables are still referenced!''"

definition msg_empty_records :: string where
  "msg_empty_records = ''jit_shutdown(): %zu empty records were not cleaned up!''"

text \<open>
  The reporting loop, with the counter \<open>n_leaked\<close>. The counter is a \<open>uint32_t\<close>; the
  keys of the map are distinct 32-bit ids and id 0 is never a key, so the counter stays
  below \<open>2 ^ 32\<close> and is a natural number here.
\<close>

fun report_leaks :: "nat \<Rightarrow> (nat \<times> Variable) list \<Rightarrow> State \<Rightarrow> nat \<times> State" where
  "report_leaks n_leaked [] s = (n_leaked, s)"
| "report_leaks n_leaked ((i, v) # vs) s =
    (let s1 = (if n_leaked = 0
               then jit_log Warn msg_leak_header [] s else s);
         s2 = (if n_leaked < 10
               then jit_log Warn msg_leak_variable
                      [U i, U (ref_count_int v), U (ref_count_ext v)] s1
               else if n_leaked = 10 then jit_log Warn msg_leak_skip [] s1
               else s1)
     in report_leaks (n_leaked + 1) vs s2)"

text \<open>Lines 234 to 265: the leak pass, behind the test of the two log levels.\<close>

definition shutdown_leak_pass :: "State \<Rightarrow> State" where
  "shutdown_leak_pass s =
    (if max (level_rank (log_level_stderr s)) (level_rank (log_level_callback s))
          \<ge> level_rank Warn then
       (let s1 = fold jit_var_dec_ref_ext (leaked_scatters (variables s)) s
        in case report_leaks 0 (variables s1) s1 of
             (n_leaked, s2) \<Rightarrow>
               (let s3 = (if n_leaked > 0
                          then jit_log Warn msg_leak_summary [U n_leaked] s2
                          else s2)
                in if variables s3 = [] \<and> extra s3 \<noteq> []
                   then jit_log Warn msg_empty_records [Z (length (extra s3))] s3
                   else s3))
     else s)"

fun log_cse_entries :: "((nat \<times> nat \<times> nat \<times> nat) \<times> nat) list \<Rightarrow> State \<Rightarrow> State" where
  "log_cse_entries [] s = s"
| "log_cse_entries (((d0, d1, d2, d3), i) # kvs) s =
    log_cse_entries kvs (jit_log Warn '' - %u: %u, %u, %u, %u'' [U i, U d0, U d1, U d2, U d3] s)"

definition msg_cse_leak :: string where
  "msg_cse_leak = ''jit_shutdown(): detected a common subexpression elimination cache leak!''"

text \<open>Lines 267 to 275: the two fatal checks.\<close>

definition shutdown_checks :: "State \<Rightarrow> result" where
  "shutdown_checks s =
    (if variables s = [] \<and> cse_cache s \<noteq> [] then
       jit_fail msg_cse_leak [] (log_cse_entries (cse_cache s) s)
     else if variables s = [] \<and> variable_from_ptr s \<noteq> [] then
       jit_fail ''jit_shutdown(): detected a pointer-literal leak!'' [] s
     else Inr s)"

text \<open>The arrays \<open>sub_events\<close> and \<open>sub_streams\<close> of a device have \<open>ENOKI_SUB_STREAMS\<close>
  entries each; the loop visits them index by index.\<close>

fun destroy_sub_streams :: "Driver \<Rightarrow> nat \<Rightarrow> (nat \<times> nat) list \<Rightarrow> State \<Rightarrow> result" where
  "destroy_sub_streams drv c [] s = Inr s"
| "destroy_sub_streams drv c ((ev, st) # r) s =
    and_then (cu_checked drv (Some c) (CuEventDestroy ev) s) (\<lambda>s1.
    and_then (cu_checked drv (Some c) (CuStreamDestroy st) s1) (destroy_sub_streams drv c r))"

fun release_devices :: "Driver \<Rightarrow> Device list \<Rightarrow> State \<Rightarrow> result" where
  "release_devices drv [] s = Inr s"
| "release_devices drv (v # vs) s =
    and_then (destroy_sub_streams drv (dev_context v) (zip (sub_events v) (sub_streams v)) s) (\<lambda>s1.
    and_then (cu_checked drv None (CuDevicePrimaryCtxRelease (dev_id v)) s1)
      (release_devices drv vs))"

text \<open>Lines 277 to 305: what follows the checks.\<close>

definition shutdown_finish :: "Driver \<Rightarrow> int \<Rightarrow> State \<Rightarrow> result" where
  "shutdown_finish drv light s5 =
    (let s6 = emit (Call ''jit_malloc_shutdown'' [])
                (emit (Call ''jit_registry_shutdown'' []) s5)
     in and_then
          (if has_cuda s6
           then and_then (release_devices drv (devices s6) s6) (\<lambda>s7. Inr (s7\<lparr>devices := []\<rparr>))
           else Inr s6)
          (\<lambda>s8.
            (let s9 = jit_log Info ''jit_shutdown(): done'' [] s8;
                 s10 = (if light = 0
                        then emit (Call ''jit_cuda_shutdown'' [])
                               (emit (Call ''jit_llvm_shutdown'' []) s9)
                        else s9)
             in Inr (s10\<lparr>jit_temp_path := None, has_cuda := False, has_llvm := False\<rparr>))))"

text \<open>\<open>jit_shutdown(int light)\<close>, statement by statement.\<close>

definition jit_shutdown :: "Driver \<Rightarrow> int \<Rightarrow> State \<Rightarrow> result" where
  "jit_shutdown drv light s =
    and_then (shutdown_thread_states drv s) (\<lambda>s1.
      (let s2 = s1\<lparr>thread_state_llvm := None, thread_state_cuda := None\<rparr>;
           s3 = shutdown_kernel_cache s2;
           s4 = shutdown_leak_pass s3
       in and_then (shutdown_checks s4) (shutdown_finish drv light)))"

subsection \<open>Finding a shared library\<close>

text \<open>
  The POSIX branch of \<open>jit_find_library\<close>. A C string is the list of its characters
  before the terminating NUL (a path holds no NUL); \<open>deref\<close> reads the character a
  pointer points to, the NUL at the end included.
\<close>

definition deref :: "string \<Rightarrow> char" where
  "deref a = (case a of [] \<Rightarrow> CHR 0x00 | c # cs \<Rightarrow> c)"

text \<open>\<open>isdigit\<close> in the C locale: the ten characters from \<open>0\<close> to \<open>9\<close>.\<close>

definition is_digit :: "char \<Rightarrow> bool" where
  "is_digit c \<longleftrightarrow> 48 \<le> (of_char c :: nat) \<and> (of_char c :: nat) \<le> 57"

text \<open>The inner loop of the comparator:
  \<open>while (*a == *b && *a != '\0' && !isdigit(*a)) { ++a; ++b; }\<close>\<close>

fun skip_common :: "string \<Rightarrow> string \<Rightarrow> string \<times> string" where
  "skip_common (x # xs) (y # ys) =
     (if x = y \<and> \<not> is_digit x then skip_common xs ys else (x # xs, y # ys))"
| "skip_common a b = (a, b)"

text \<open>
  \<open>strtol(a, &ap, 10)\<close> is called on a string that starts with a digit: it reads the
  whole run of digits, returns its value as a \<open>long\<close> (64 bits on the POSIX targets,
  \<open>LONG_MAX\<close> when the value does not fit) and leaves \<open>ap\<close> behind the run. The result
  is stored in an \<open>int\<close>: \<open>long_to_int\<close> keeps the low 32 bits, read as two's complement.
\<close>

definition digits_value :: "string \<Rightarrow> int" where
  "digits_value ds = foldl (\<lambda>acc c. 10 * acc + (of_char c - 48)) 0 ds"

definition strtol :: "string \<Rightarrow> int" where
  "strtol a = min (digits_value (takeWhile is_digit a)) (2 ^ 63 - 1)"

definition strtol_end :: "string \<Rightarrow> string" where
  "strtol_end a = dropWhile is_digit a"

definition long_to_int :: "int \<Rightarrow> int" where
  "long_to_int v = sint (word_of_int v :: 32 word)"

text \<open>\<open>strcmp\<close>: the difference of the first two characters that differ, as unsigned
  characters.\<close>

fun strcmp :: "string \<Rightarrow> string \<Rightarrow> int" where
  "strcmp (x # xs) (y # ys) =
     (if x = y then strcmp xs ys else int (of_char x) - int (of_char y))"
| "strcmp a b = int (of_char (deref a)) - int (of_char (deref b))"

text \<open>The comparator passed to \<open>std::sort\<close>. Both pointers are never null, so the outer
  loop ends only by a \<open>return\<close>; each round passes at least one digit.\<close>

function version_less :: "string \<Rightarrow> string \<Rightarrow> bool" where
  "version_less a b =
    (case skip_common a b of
       (a', b') \<Rightarrow>
         if is_digit (deref a') \<and> is_digit (deref b') then
           (let ai = long_to_int (strtol a'); bi = long_to_int (strtol b')
            in if ai \<noteq> bi then ai < bi else version_less (strtol_end a') (strtol_end b'))
         else strcmp a' b' < 0)"
  by pat_completeness auto
termination
proof (relation "measure (\<lambda>(a, b). length a)")
  show "wf (measure (\<lambda>(a, b). length a))" by simp
next
  fix a b :: string and x :: "string \<times> string" and a' b' :: string and ai bi :: int
  assume sk: "(a', b') = skip_common a b" and dg: "is_digit (deref a') \<and> is_digit (deref b')"
  have "length (fst (skip_common u v)) \<le> length u" for u v
    by (induction u v rule: skip_common.induct) auto
  from this[of a b] sk[symmetric] have le: "length a' \<le> length a" by simp
  from dg obtain c cs where a': "a' = c # cs" and "is_digit c"
    by (cases a') (auto simp: deref_def is_digit_def)
  then have "strtol_end a' = dropWhile is_digit cs" by (simp add: strtol_end_def)
  with a' have "length (strtol_end a') < length a'"
    by (simp add: le_imp_less_Suc length_dropWhile_le)
  with le show "((strtol_end a', strtol_end b'), (a, b)) \<in> measure (\<lambda>(a, b). length a)"
    by simp
qed

text \<open>
  The environment of the loader: the process environment, \<open>dlopen\<close> (\<open>None\<close> is the null
  handle) with the text of \<open>dlerror\<close>, \<open>glob\<close> (\<open>None\<close>: a return value other than 0; else
  \<open>gl_pathv\<close>) and \<open>lstat\<close> (\<open>None\<close>: a return value other than 0; else what \<open>st_mode\<close>
  says).
\<close>

datatype file_kind = RegularFile | SymbolicLink | OtherFile

record LibEnv =
  getenv :: "string \<Rightarrow> string option"
  dlopen :: "string \<Rightarrow> nat option"
  dlerror :: string
  glob :: "string \<Rightarrow> string list option"
  lstat :: "string \<Rightarrow> file_kind option"

definition msg_unable_to_load :: string where
  "msg_unable_to_load =
     ''jit_find_library(): Unable to load '' @ [CHR 0x22] @ ''%s'' @ [CHR 0x22] @ '': %s!''"

definition msg_multiple_versions :: string where
  "msg_multiple_versions =
     ''jit_find_library(): Multiple versions of %s were found on your system!'' @ [CHR 0x0A]"

definition msg_candidate :: string where
  "msg_candidate = '' %u. '' @ [CHR 0x22] @ ''%s'' @ [CHR 0x22]"

definition msg_choosing_last :: string where
  "msg_choosing_last =
     [CHR 0x0A] @ ''Choosing the last one. Specify a path manually using the environment''
     @ [CHR 0x0A] @ ''variable '' @ [CHR 0x27] @ ''%s'' @ [CHR 0x27]
     @ '' to override this behavior.'' @ [CHR 0x0A]"

text \<open>
  One pass of the inner \<open>for\<close> loop over the sorted paths. In the first pass (\<open>j == 0\<close>) a
  path is skipped when \<open>lstat\<close> fails or reports a symbolic link; \<open>counter\<close> is a
  \<open>uint32_t\<close>.
\<close>

fun scan_candidates ::
    "LibEnv \<Rightarrow> bool \<Rightarrow> string list \<Rightarrow> 32 word \<times> string option \<times> effect list
      \<Rightarrow> 32 word \<times> string option \<times> effect list" where
  "scan_candidates e first_pass [] acc = acc"
| "scan_candidates e first_pass (p # ps) (counter, chosen, evs) =
    (if first_pass then
       (case lstat e p of
          None \<Rightarrow> scan_candidates e first_pass ps (counter, chosen, evs @ [Lstat p])
        | Some k \<Rightarrow>
           if k = SymbolicLink
           then scan_candidates e first_pass ps (counter, chosen, evs @ [Lstat p])
           else scan_candidates e first_pass ps
                  (counter + 1, Some p,
                   evs @ [Lstat p, Log Info msg_candidate [U (unat counter), S p]]))
     else scan_candidates e first_pass ps
            (counter + 1, Some p, evs @ [Log Info msg_candidate [U (unat counter), S p]]))"

text \<open>The loop over \<open>j\<close>: the second pass runs only if the first chose nothing.\<close>

definition choose_candidate :: "LibEnv \<Rightarrow> string list \<Rightarrow> string option \<times> effect list" where
  "choose_candidate e ps =
    (case scan_candidates e True ps (1, None, []) of
       (counter, chosen, evs) \<Rightarrow>
         if chosen \<noteq> None then (chosen, evs)
         else (case scan_candidates e False ps (counter, chosen, evs) of
                 (counter2, chosen2, evs2) \<Rightarrow> (chosen2, evs2)))"

text \<open>
  \<open>jit_find_library(fname, glob_pat, env_var)\<close>. \<open>std_sort\<close> is what \<open>std::sort\<close> makes of
  the array with the comparator \<open>version_less\<close>: the standard fixes it up to the order
  of equivalent elements, so it is a parameter. The result is the handle and the calls
  made.
\<close>

definition jit_find_library ::
    "LibEnv \<Rightarrow> (string list \<Rightarrow> string list) \<Rightarrow> string \<Rightarrow> string \<Rightarrow> string option
      \<Rightarrow> nat option \<times> effect list" where
  "jit_find_library e std_sort fname glob_pat env_var =
    (let env_var_val0 = (case env_var of None \<Rightarrow> None | Some v \<Rightarrow> getenv e v);
         env_var_val = (if env_var_val0 = Some [] then None else env_var_val0);
         path = (case env_var_val of Some p \<Rightarrow> p | None \<Rightarrow> fname);
         handle = dlopen e path
     in if handle \<noteq> None then (handle, [Dlopen path])
        else
          (case env_var_val of
             Some p \<Rightarrow> (None, [Dlopen path, Log Warn msg_unable_to_load [S p, S (dlerror e)]])
           | None \<Rightarrow>
              (case glob e glob_pat of
                 None \<Rightarrow> (None, [Dlopen path, GlobCall glob_pat])
               | Some g \<Rightarrow>
                  if 1 < length g then
                    (case choose_candidate e (std_sort g) of
                       (chosen, evs) \<Rightarrow>
                         (let evs1 = [Dlopen path, GlobCall glob_pat,
                                      Log Info msg_multiple_versions [S fname]] @ evs
                                     @ [Log Info msg_choosing_last
                                          [S (case env_var of None \<Rightarrow> ''(null)'' | Some v \<Rightarrow> v)]]
                          in case chosen of
                               None \<Rightarrow> (None, evs1)
                             | Some c \<Rightarrow> (dlopen e c, evs1 @ [Dlopen c])))
                  else if length g = 1 then
                    (dlopen e (hd g), [Dlopen path, GlobCall glob_pat, Dlopen (hd g)])
                  else (None, [Dlopen path, GlobCall glob_pat]))))"

section \<open>llvm_core.cpp: the LLVM backend\<close>

text \<open>
  The capability groups of the API table, and what is outside the program: the symbols
  the loaded library exports (\<open>None\<close>: no library was found), the symbols of each group,
  the host as LLVM reports it, whether the disassembler and the two JIT engines
  initialise, the library version and the build target (\<open>__aarch64__\<close>, \<open>__APPLE__\<close>).
\<close>

datatype capability = Core | PassBuilderNew | PassBuilderLegacy | OrcV2 | MCJIT

record LLVMEnv =
  library :: "string list option"
  group_symbols :: "capability \<Rightarrow> string list"
  host_triple :: string
  host_cpu :: string
  host_features :: string
  disasm_created :: bool
  disasm_options_ok :: bool
  orcv2_init_ok :: bool
  mcjit_init_ok :: bool
  version_major :: int
  version_minor :: int
  version_patch :: int
  aarch64 :: bool
  apple :: bool

text \<open>The variables of llvm_core.cpp, the API table (\<open>None\<close>: not loaded, else the symbols
  that resolved) and the trace.\<close>

record LLVMState =
  jitc_llvm_init_attempted :: bool
  jitc_llvm_init_success :: bool
  jitc_llvm_use_orcv2 :: bool
  jitc_llvm_disasm_ctx :: bool
  jitc_llvm_context :: bool
  jitc_llvm_target_triple :: "string option"
  jitc_llvm_target_cpu :: "string option"
  jitc_llvm_target_features :: "string option"
  jitc_llvm_vector_width :: nat
  jitc_llvm_max_align :: nat
  jitc_llvm_opaque_pointers :: bool
  jitc_llvm_ones_str :: bool
  api :: "string list option"
  llvm_trace :: "effect list"

definition llvm_emit :: "effect \<Rightarrow> LLVMState \<Rightarrow> LLVMState" where
  "llvm_emit e st = st\<lparr>llvm_trace := llvm_trace st @ [e]\<rparr>"

definition jitc_log :: "LogLevel \<Rightarrow> string \<Rightarrow> fmt_arg list \<Rightarrow> LLVMState \<Rightarrow> LLVMState" where
  "jitc_log l f as st = llvm_emit (Log l f as) st"

text \<open>Modelled from the spec: the API table lives in llvm_api.cpp, outside src/. Section
  4.2: after loading the library every symbol the core may call is resolved into the
  table, and a capability predicate returns true only when all symbols of its group
  resolved. \<open>jitc_llvm_api_init\<close> fails when no library is found;
  \<open>jitc_llvm_api_shutdown\<close> releases the table.\<close>

definition jitc_llvm_api_init :: "LLVMEnv \<Rightarrow> LLVMState \<Rightarrow> bool \<times> LLVMState" where
  "jitc_llvm_api_init env st =
    (case library env of
       None \<Rightarrow> (False, llvm_emit (Call ''jitc_llvm_api_init'' []) st)
     | Some syms \<Rightarrow> (True, (llvm_emit (Call ''jitc_llvm_api_init'' []) st)\<lparr>api := Some syms\<rparr>))"

definition jitc_llvm_api_shutdown :: "LLVMState \<Rightarrow> LLVMState" where
  "jitc_llvm_api_shutdown st = (llvm_emit (Call ''jitc_llvm_api_shutdown'' []) st)\<lparr>api := None\<rparr>"

definition jitc_llvm_api_has :: "LLVMEnv \<Rightarrow> capability \<Rightarrow> LLVMState \<Rightarrow> bool" where
  "jitc_llvm_api_has env c st =
    (case api st of None \<Rightarrow> False | Some syms \<Rightarrow> list_all (\<lambda>s. s \<in> set syms) (group_symbols env c))"

text \<open>\<open>strstr(haystack, needle) != nullptr\<close>\<close>

definition strstr :: "string \<Rightarrow> string \<Rightarrow> bool" where
  "strstr haystack needle = sublist needle haystack"

text \<open>\<open>jitc_llvm_shutdown()\<close>: nothing happens unless \<open>jitc_llvm_init_success\<close> is set.\<close>

definition jitc_llvm_shutdown :: "LLVMState \<Rightarrow> LLVMState" where
  "jitc_llvm_shutdown st =
    (if \<not> jitc_llvm_init_success st then st
     else
       (let st1 = jitc_log Info ''jit_llvm_shutdown()'' [] st;
            st2 = llvm_emit (Call ''jitc_llvm_mcjit_shutdown'' [])
                    (llvm_emit (Call ''jitc_llvm_orcv2_shutdown'' [])
                      (llvm_emit (Call ''jitc_llvm_memmgr_shutdown'' []) st1));
            st3 = llvm_emit (Call ''LLVMDisposeMessage'' [])
                    (llvm_emit (Call ''LLVMDisposeMessage'' [])
                      (llvm_emit (Call ''LLVMDisposeMessage'' []) st2));
            st4 = (if jitc_llvm_disasm_ctx st3
                   then (llvm_emit (Call ''LLVMDisasmDispose'' []) st3)\<lparr>jitc_llvm_disasm_ctx := False\<rparr>
                   else st3);
            st5 = st4\<lparr>jitc_llvm_target_cpu := None, jitc_llvm_target_features := None,
                      jitc_llvm_vector_width := 0, jitc_llvm_context := False\<rparr>;
            st6 = (if jitc_llvm_ones_str st5 then llvm_emit (Call ''free'' []) st5 else st5)
        in jitc_llvm_api_shutdown
             (st6\<lparr>jitc_llvm_ones_str := False, jitc_llvm_init_success := False,
                  jitc_llvm_init_attempted := False\<rparr>)))"

definition msg_lacks_core :: string where
  "msg_lacks_core = ''jit_llvm_init(): detected LLVM version lacks core API used by Dr.Jit, shutting down LLVM backend ..''"

definition msg_lacks_pass_manager :: string where
  "msg_lacks_pass_manager = ''jit_llvm_init(): detected LLVM version lacks pass manager API used by Dr.Jit, shutting down LLVM backend ..''"

definition msg_no_fma :: string where
  "msg_no_fma = ''jit_llvm_init(): your CPU does not support the `fma` instruction set, shutting down the LLVM backend...''"

definition msg_no_vector_isa :: string where
  "msg_no_vector_isa = ''jit_llvm_init(): no suitable vector ISA found, shutting down LLVM backend..''"

definition msg_no_jit :: string where
  "msg_no_jit = ''jit_llvm_init(): ORCv2/MCJIT could not be initialized, shutting down LLVM backend..''"

definition msg_found_llvm :: string where
  "msg_found_llvm = ''jit_llvm_init(): found LLVM %s.%s.%s (%s), target=%s, cpu=%s, %s pointers, width=%u.''"

text \<open>Lines 86 to 108: the target is initialised and the host queried; a disassembler
  that rejects its options is disposed of.\<close>

definition llvm_query_host :: "LLVMEnv \<Rightarrow> LLVMState \<Rightarrow> LLVMState" where
  "llvm_query_host env st =
    (let st1 = llvm_emit (Call ''LLVMInitializeDrJitDisassembler'' [])
                 (llvm_emit (Call ''LLVMInitializeDrJitAsmPrinter'' [])
                   (llvm_emit (Call ''LLVMInitializeDrJitTargetMC'' [])
                     (llvm_emit (Call ''LLVMInitializeDrJitTarget'' [])
                       (llvm_emit (Call ''LLVMInitializeDrJitTargetInfo'' [])
                         (llvm_emit (Call ''LLVMLinkInMCJIT'' []) st)))));
         st2 = st1\<lparr>jitc_llvm_target_triple := Some (host_triple env),
                   jitc_llvm_target_cpu := Some (host_cpu env),
                   jitc_llvm_target_features := Some (host_features env),
                   jitc_llvm_context := True,
                   jitc_llvm_disasm_ctx := disasm_created env\<rparr>
     in if jitc_llvm_disasm_ctx st2 \<and> \<not> disasm_options_ok env
        then (llvm_emit (Call ''LLVMDisasmDispose'' []) st2)\<lparr>jitc_llvm_disasm_ctx := False\<rparr>
        else st2)"

text \<open>Lines 120 to 136: the vector width the feature string gives.\<close>

definition llvm_vector_width :: "LLVMEnv \<Rightarrow> string \<Rightarrow> nat" where
  "llvm_vector_width env features =
    (if apple env \<and> aarch64 env then 4
     else if strstr features ''+avx512vl'' then 16
     else if strstr features ''+avx'' then 8
     else if strstr features ''+sse4.2'' then 4
     else 1)"

text \<open>Lines 148 to 157: ORCv2 is tried first, then MCJIT; an engine is initialised
  only if its group resolved.\<close>

definition llvm_select_jit :: "LLVMEnv \<Rightarrow> LLVMState \<Rightarrow> bool \<times> LLVMState" where
  "llvm_select_jit env st =
    (if jitc_llvm_api_has env OrcV2 st
        \<and> orcv2_init_ok env
     then (True, (llvm_emit (Call ''jitc_llvm_orcv2_init'' []) st)\<lparr>jitc_llvm_use_orcv2 := True\<rparr>)
     else
       (let st1 = (if jitc_llvm_api_has env OrcV2 st
                   then llvm_emit (Call ''jitc_llvm_orcv2_init'' []) st else st)
        in if jitc_llvm_api_has env MCJIT st1 \<and> mcjit_init_ok env
           then (True, (llvm_emit (Call ''jitc_llvm_mcjit_init'' []) st1)\<lparr>jitc_llvm_use_orcv2 := False\<rparr>)
           else (False,
                 jitc_llvm_shutdown
                   (jitc_log Warn msg_no_jit []
                      (if jitc_llvm_api_has env MCJIT st1
                       then llvm_emit (Call ''jitc_llvm_mcjit_init'' []) st1 else st1)))))"

text \<open>The version strings of the last message. Each is a \<open>char[5]\<close> that starts as \<open>?\<close>;
  for a number that is not negative \<open>snprintf(.., 5, "%i", ..)\<close> writes its decimal digits,
  of which the buffer keeps the first four.\<close>

fun decimal :: "nat \<Rightarrow> string" where
  "decimal n =
     (if n < 10 then [char_of (48 + n)]
      else decimal (n div 10) @ [char_of (48 + n mod 10)])"

definition version_str :: "int \<Rightarrow> fmt_arg" where
  "version_str v = S (if v \<ge> 0 then take 4 (decimal (nat v)) else ''?'')"

text \<open>Lines 120 to 180: the vector width decides \<open>jitc_llvm_init_success\<close>; a width of 1
  logs a warning and calls \<open>jitc_llvm_shutdown\<close>, and the function goes on to the JIT
  engines.\<close>

definition llvm_init_width :: "LLVMEnv \<Rightarrow> LLVMState \<Rightarrow> bool \<times> LLVMState" where
  "llvm_init_width env st2 =
    (let width = llvm_vector_width env (host_features env);
         st3 = (if apple env \<and> aarch64 env
                then (llvm_emit (Call ''LLVMDisposeMessage'' []) st2)
                       \<lparr>jitc_llvm_target_cpu :=
                          Some (if version_major env > 15 then ''apple-m1'' else ''apple-a14'')\<rparr>
                else st2);
         st4 = st3\<lparr>jitc_llvm_vector_width := width,
                   jitc_llvm_init_success := (width > 1),
                   jitc_llvm_max_align := width * 4\<rparr>;
         st5 = (if \<not> jitc_llvm_init_success st4
                then jitc_llvm_shutdown (jitc_log Warn msg_no_vector_isa [] st4)
                else st4)
     in case llvm_select_jit env st5 of
          (selected, st6) \<Rightarrow>
            if \<not> selected then (False, st6)
            else
              (let st7 = st6\<lparr>jitc_llvm_opaque_pointers := (version_major env \<ge> 15)\<rparr>;
                   st8 = (llvm_emit (Call ''jitc_llvm_update_strings'' []) st7)
                           \<lparr>jitc_llvm_ones_str := True\<rparr>;
                   st9 = jitc_log Info msg_found_llvm
                           [version_str (version_major env),
                            version_str (version_minor env),
                            version_str (version_patch env),
                            S (if jitc_llvm_use_orcv2 st8 then ''ORCv2'' else ''MCJIT''),
                            S (case jitc_llvm_target_triple st8 of None \<Rightarrow> [] | Some x \<Rightarrow> x),
                            S (case jitc_llvm_target_cpu st8 of None \<Rightarrow> [] | Some x \<Rightarrow> x),
                            S (if jitc_llvm_opaque_pointers st8 then ''opaque'' else ''typed''),
                            U (jitc_llvm_vector_width st8)] st8
               in (jitc_llvm_init_success st9, st9)))"

text \<open>Lines 86 to 118: the host is queried; without \<open>+fma\<close> (the test is compiled out
  on 64-bit ARM) the function logs, calls \<open>jitc_llvm_shutdown\<close> and returns false.\<close>

definition llvm_init_target :: "LLVMEnv \<Rightarrow> LLVMState \<Rightarrow> bool \<times> LLVMState" where
  "llvm_init_target env st1 =
    (let st2 = llvm_query_host env st1 in
     if \<not> aarch64 env \<and> \<not> strstr (host_features env) ''+fma'' then
       (False, jitc_llvm_shutdown (jitc_log Warn msg_no_fma [] st2))
     else llvm_init_width env st2)"

text \<open>\<open>jitc_llvm_init()\<close>: the result and the state it leaves.\<close>

definition jitc_llvm_init :: "LLVMEnv \<Rightarrow> LLVMState \<Rightarrow> bool \<times> LLVMState" where
  "jitc_llvm_init env st =
    (if jitc_llvm_init_attempted st then (jitc_llvm_init_success st, st)
     else
       (case jitc_llvm_api_init env (st\<lparr>jitc_llvm_init_attempted := True\<rparr>) of
          (loaded, st1) \<Rightarrow>
            if \<not> loaded then (False, st1)
            else if \<not> jitc_llvm_api_has env Core st1 then
              (False, jitc_llvm_api_shutdown (jitc_log Warn msg_lacks_core [] st1))
            else if \<not> jitc_llvm_api_has env PassBuilderNew st1
                    \<and> \<not> jitc_llvm_api_has env PassBuilderLegacy st1 then
              (False, jitc_llvm_api_shutdown (jitc_log Warn msg_lacks_pass_manager [] st1))
            else llvm_init_target env st1))"

section \<open>Observations and example inputs\<close>

text \<open>What the theorems say about a run is phrased with the definitions of this
  section; the example inputs are those the theorems are instantiated at.\<close>

subsection \<open>Thread states, synchronisation and peer access\<close>

text \<open>The entries a call has appended to the trace.\<close>

definition new_trace :: "State \<Rightarrow> State \<Rightarrow> effect list" where
  "new_trace s s' = drop (length (trace s)) (trace s')"

text \<open>A driver on which every call succeeds and every device can reach every other.\<close>

definition drv_ok :: Driver where
  "drv_ok = \<lparr>cu_result = (\<lambda>c k. CUDA_SUCCESS), peer_ok = (\<lambda>a b. True),
     new_stream = (\<lambda>c. c + 100), new_event = (\<lambda>c. c + 200)\<rparr>"

text \<open>The state before initialisation: nothing is registered, the caller holds the mutex,
  the log levels are \<open>Info\<close> for stderr and \<open>Error\<close> for the callback.\<close>

definition state0 :: State where
  "state0 = \<lparr>has_llvm = False, has_cuda = False, devices = [], tss = [], heap = Map.empty,
     thread_state_cuda = None, thread_state_llvm = None, mutex_locked = True,
     log_level_stderr = Info, log_level_callback = Error, variables = [], cse_cache = [],
     extra = [], variable_from_ptr = [], kernel_cache = [], jit_temp_path = None, trace = []\<rparr>"

text \<open>The entries that wait: for a stream, for a context, for a task.\<close>

fun blocking :: "effect \<Rightarrow> bool" where
  "blocking (Cu c (CuStreamSynchronize st)) = True"
| "blocking (Cu c CuCtxSynchronize) = True"
| "blocking (TaskWaitAndRelease t) = True"
| "blocking e = False"

text \<open>The copy of the ThreadState list.\<close>

fun is_snapshot :: "effect \<Rightarrow> bool" where
  "is_snapshot (Snapshot xs) = True"
| "is_snapshot e = False"

text \<open>Replays a trace from a state of the mutex (\<open>True\<close>: held by the caller). The result
  is the state at the end, or \<open>None\<close> when an entry is out of place: an unlock of a mutex
  that is not held, a lock of one that is, a copy of the list without the mutex, or a
  wait with it.\<close>

fun mutex_trace :: "bool \<Rightarrow> effect list \<Rightarrow> bool option" where
  "mutex_trace held [] = Some held"
| "mutex_trace held (e # es) =
    (if e = Unlock then (if held then mutex_trace False es else None)
     else if e = Lock then (if held then None else mutex_trace True es)
     else if is_snapshot e then (if held then mutex_trace held es else None)
     else if blocking e then (if held then None else mutex_trace held es)
     else mutex_trace held es)"

text \<open>The discipline of a call made with the mutex held: no entry is out of place and,
  when the call returns, the mutex is held again.\<close>

definition lock_discipline :: "State \<Rightarrow> result \<Rightarrow> bool" where
  "lock_discipline s r =
    (case r of
       Inl (e, s') \<Rightarrow> mutex_trace True (new_trace s s') \<noteq> None
     | Inr s' \<Rightarrow> mutex_trace True (new_trace s s') = Some True \<and> mutex_locked s')"

text \<open>The state a run ends in, whether it returns or fails.\<close>

definition outcome_state :: "result \<Rightarrow> State" where
  "outcome_state r = (case r of Inl (e, s) \<Rightarrow> s | Inr s \<Rightarrow> s)"

text \<open>From \<open>s\<close> to \<open>s'\<close> nothing happened but waits: the mutex, the list and the thread-local
  pointers are as before.\<close>

definition waits_only :: "State \<Rightarrow> State \<Rightarrow> bool" where
  "waits_only s s' \<longleftrightarrow>
     (\<exists>es. trace s' = trace s @ es \<and> list_all blocking es)
     \<and> mutex_locked s' = mutex_locked s \<and> tss s' = tss s
     \<and> thread_state_cuda s' = thread_state_cuda s \<and> thread_state_llvm s' = thread_state_llvm s"

text \<open>From \<open>s\<close> to \<open>s'\<close> the trace grew by entries that are in place, and the mutex is in the
  state the replay ends in.\<close>

definition disciplined :: "State \<Rightarrow> State \<Rightarrow> bool" where
  "disciplined s s' \<longleftrightarrow>
     (\<exists>es. trace s' = trace s @ es \<and> mutex_trace (mutex_locked s) es = Some (mutex_locked s'))"

text \<open>A wait for a task of the pool.\<close>

fun is_task_wait :: "effect \<Rightarrow> bool" where
  "is_task_wait (TaskWaitAndRelease t) = True"
| "is_task_wait e = False"

text \<open>Every CPU ThreadState of the list of \<open>s\<close> has been synchronised on the way to \<open>s'\<close>:
  its task was waited for and its task pointer is null.\<close>

definition cpu_states_synced :: "State \<Rightarrow> State \<Rightarrow> bool" where
  "cpu_states_synced s s' \<longleftrightarrow>
     (\<forall>a\<in>set (tss s).
        case heap s a of
          None \<Rightarrow> True
        | Some ts \<Rightarrow>
            cuda ts \<or> (TaskWaitAndRelease (task ts) \<in> set (new_trace s s')
                        \<and> map_option task (heap s' a) = Some None))"

text \<open>The context of the calling thread's CUDA ThreadState, if there is one, has been
  synchronised with success on the way to \<open>s'\<close>.\<close>

definition gpu_context_synced :: "Driver \<Rightarrow> State \<Rightarrow> State \<Rightarrow> bool" where
  "gpu_context_synced drv s s' \<longleftrightarrow>
     (case thread_state_cuda s of
        None \<Rightarrow> True
      | Some a \<Rightarrow>
          (case heap s a of
             None \<Rightarrow> False
           | Some ts \<Rightarrow>
               Cu (Some (ts_context ts)) CuCtxSynchronize \<in> set (new_trace s s')
               \<and> cu_result drv (Some (ts_context ts)) CuCtxSynchronize = CUDA_SUCCESS))"

text \<open>Three ThreadStates: a CUDA one of the calling thread and two CPU ones with pending
  tasks; the calling thread has no LLVM ThreadState.\<close>

definition ts_gpu :: ThreadState where
  "ts_gpu = ThreadState0\<lparr>cuda := True, ts_context := 10, stream := 11, event := 12\<rparr>"

definition ts_cpu :: "nat \<Rightarrow> ThreadState" where
  "ts_cpu t = ThreadState0\<lparr>device := - 1, task := Some t\<rparr>"

definition st_threads :: State where
  "st_threads = state0\<lparr>has_llvm := True, has_cuda := True, tss := [1, 2, 3],
     heap := [1 \<mapsto> ts_gpu, 2 \<mapsto> ts_cpu 5, 3 \<mapsto> ts_cpu 6],
     thread_state_cuda := Some 1, thread_state_llvm := None\<rparr>"

text \<open>The pair \<open>(a, b)\<close> was queried under the context of \<open>a\<close> and, where access is
  supported, access to the context of \<open>b\<close> was enabled under the context of \<open>a\<close>.\<close>

definition p2p_done :: "Driver \<Rightarrow> Device \<Rightarrow> Device \<Rightarrow> effect list \<Rightarrow> bool" where
  "p2p_done drv a b es \<longleftrightarrow>
     Cu (Some (dev_context a)) (CuDeviceCanAccessPeer (dev_id a) (dev_id b)) \<in> set es
     \<and> (peer_ok drv (dev_id a) (dev_id b) \<longrightarrow>
          Cu (Some (dev_context a)) (CuCtxEnablePeerAccess (dev_context b)) \<in> set es)"

text \<open>The driver lets the pair pass: the query succeeds and, where access is supported,
  enabling it reports success or that it is already enabled.\<close>

definition p2p_accepts :: "Driver \<Rightarrow> Device \<Rightarrow> Device \<Rightarrow> bool" where
  "p2p_accepts drv a b \<longleftrightarrow>
     cu_result drv (Some (dev_context a)) (CuDeviceCanAccessPeer (dev_id a) (dev_id b)) = CUDA_SUCCESS
     \<and> (peer_ok drv (dev_id a) (dev_id b) \<longrightarrow>
          cu_result drv (Some (dev_context a)) (CuCtxEnablePeerAccess (dev_context b))
            \<in> {CUDA_SUCCESS, CUDA_ERROR_PEER_ACCESS_ALREADY_ENABLED})"

text \<open>Two devices, and a driver that reports access from the first to the second as
  already enabled.\<close>

definition dev0 :: Device where
  "dev0 = \<lparr>dev_id = 0, dev_context = 10, compute_capability = 75, shared_memory_bytes = 49152,
     num_sm = 40, sub_streams = [11], sub_events = [12]\<rparr>"

definition dev1 :: Device where
  "dev1 = \<lparr>dev_id = 1, dev_context = 20, compute_capability = 86, shared_memory_bytes = 49152,
     num_sm = 68, sub_streams = [21], sub_events = [22]\<rparr>"

definition drv_p2p :: Driver where
  "drv_p2p = drv_ok\<lparr>cu_result :=
     (\<lambda>c k. if k = CuCtxEnablePeerAccess 20 then CUDA_ERROR_PEER_ACCESS_ALREADY_ENABLED
            else CUDA_SUCCESS)\<rparr>"

definition st_two_devices :: State where
  "st_two_devices = state0\<lparr>has_cuda := True, devices := [dev0, dev1]\<rparr>"

text \<open>The trace of the peer-to-peer loop on the two devices.\<close>

definition p2p_trace :: "effect list" where
  "p2p_trace =
     [Cu (Some 10) (CuDeviceCanAccessPeer 0 1),
      Log Debug '' - Enabling peer access from device %i -> %i'' [I 0, I 1],
      Cu (Some 10) (CuCtxEnablePeerAccess 20),
      Cu (Some 20) (CuDeviceCanAccessPeer 1 0),
      Log Debug '' - Enabling peer access from device %i -> %i'' [I 1, I 0],
      Cu (Some 20) (CuCtxEnablePeerAccess 10)]"

subsection \<open>Observations on a shutdown\<close>

text \<open>The report of one leaked Variable.\<close>

definition leak_line :: "nat \<times> Variable \<Rightarrow> effect" where
  "leak_line kv =
     Log Warn msg_leak_variable [U (fst kv), U (ref_count_int (snd kv)), U (ref_count_ext (snd kv))]"

text \<open>The report the leak pass owes for the Variables left in the map: nothing when there
  are none; otherwise the heading, at most 10 individual lines, one notice when more
  were left out, and the line with the total.\<close>

definition leak_report :: "(nat \<times> Variable) list \<Rightarrow> effect list" where
  "leak_report vs =
    (if vs = [] then []
     else Log Warn msg_leak_header [] # map leak_line (take 10 vs)
          @ (if 10 < length vs then [Log Warn msg_leak_skip []] else [])
          @ [Log Warn msg_leak_summary [U (length vs)]])"

text \<open>The log entries that belong to the leak report.\<close>

fun is_leak_line :: "effect \<Rightarrow> bool" where
  "is_leak_line (Log l f as) =
     (l = Warn \<and> f \<in> set [msg_leak_header, msg_leak_variable, msg_leak_skip, msg_leak_summary])"
| "is_leak_line e = False"

text \<open>What the reporting loop logs when it starts with the counter at \<open>n\<close>.\<close>

definition report_lines :: "nat \<Rightarrow> (nat \<times> Variable) list \<Rightarrow> effect list" where
  "report_lines n vs =
     (if n = 0 \<and> vs \<noteq> [] then [Log Warn msg_leak_header []] else [])
     @ map leak_line (take (10 - n) vs)
     @ (if n \<le> 10 \<and> 10 < n + length vs then [Log Warn msg_leak_skip []] else [])"

text \<open>The log entry for one entry of the CSE cache.\<close>

definition cse_line :: "(nat \<times> nat \<times> nat \<times> nat) \<times> nat \<Rightarrow> effect" where
  "cse_line kv = (case kv of ((d0, d1, d2, d3), i) \<Rightarrow>
     Log Warn '' - %u: %u, %u, %u, %u'' [U i, U d0, U d1, U d2, U d3])"

text \<open>From \<open>s\<close> to \<open>s'\<close> the maps of the Variable store and the log levels are unchanged and
  no leak line was logged.\<close>

definition keeps_variables :: "State \<Rightarrow> State \<Rightarrow> bool" where
  "keeps_variables s s' \<longleftrightarrow>
     variables s' = variables s \<and> cse_cache s' = cse_cache s \<and> extra s' = extra s
     \<and> variable_from_ptr s' = variable_from_ptr s
     \<and> log_level_stderr s' = log_level_stderr s \<and> log_level_callback s' = log_level_callback s
     \<and> (\<exists>es. trace s' = trace s @ es \<and> filter is_leak_line es = [])"

text \<open>Five Variables: a scatter whose only reference is one external reference, the
  Variable it depends on, a Variable still held from outside, and two scatters that have
  other references: one with two external references, one with an external reference and
  an internal one (the held Variable depends on it).\<close>

definition var_scatter :: Variable where
  "var_scatter = \<lparr>ref_count_ext = 1, ref_count_int = 0, scatter = True, dep = [2, 0, 0, 0]\<rparr>"

definition var_inner :: Variable where
  "var_inner = \<lparr>ref_count_ext = 0, ref_count_int = 1, scatter = False, dep = [0, 0, 0, 0]\<rparr>"

definition var_held :: Variable where
  "var_held = \<lparr>ref_count_ext = 1, ref_count_int = 0, scatter = False, dep = [5, 0, 0, 0]\<rparr>"

definition var_scatter_shared :: Variable where
  "var_scatter_shared =
     \<lparr>ref_count_ext = 2, ref_count_int = 0, scatter = True, dep = [0, 0, 0, 0]\<rparr>"

definition var_scatter_used :: Variable where
  "var_scatter_used =
     \<lparr>ref_count_ext = 1, ref_count_int = 1, scatter = True, dep = [0, 0, 0, 0]\<rparr>"

text \<open>A state with these five Variables and a given log level for stderr.\<close>

definition st_leaky :: "LogLevel \<Rightarrow> State" where
  "st_leaky l = state0\<lparr>log_level_stderr := l, log_level_callback := Error,
     variables := [(1, var_scatter), (2, var_inner), (3, var_held),
                   (4, var_scatter_shared), (5, var_scatter_used)]\<rparr>"

text \<open>The Variables of that state that a leak pass leaves in the map, and the report it
  owes for them.\<close>

definition leaky_left :: "(nat \<times> Variable) list" where
  "leaky_left = [(3, var_held), (4, var_scatter_shared), (5, var_scatter_used)]"

definition leaky_report :: "effect list" where
  "leaky_report =
     [Log Warn msg_leak_header [],
      Log Warn msg_leak_variable [U 3, U 0, U 1],
      Log Warn msg_leak_variable [U 4, U 0, U 2],
      Log Warn msg_leak_variable [U 5, U 1, U 1],
      Log Warn msg_leak_summary [U 3]]"

text \<open>The trace of the statements after the two checks, with \<open>light = 0\<close> and no device.\<close>

definition finish_trace :: "effect list" where
  "finish_trace =
     [Call ''jit_registry_shutdown'' [], Call ''jit_malloc_shutdown'' [],
      Log Info ''jit_shutdown(): done'' [],
      Call ''jit_llvm_shutdown'' [], Call ''jit_cuda_shutdown'' []]"





subsection \<open>Observations on the library search\<close>

text \<open>One sorting procedure, to run examples.\<close>

fun insert_by :: "('a \<Rightarrow> 'a \<Rightarrow> bool) \<Rightarrow> 'a \<Rightarrow> 'a list \<Rightarrow> 'a list" where
  "insert_by lt x [] = [x]"
| "insert_by lt x (y # ys) = (if lt x y then x # y # ys else y # insert_by lt x ys)"

definition insertion_sort :: "('a \<Rightarrow> 'a \<Rightarrow> bool) \<Rightarrow> 'a list \<Rightarrow> 'a list" where
  "insertion_sort lt xs = foldr (insert_by lt) xs []"

text \<open>A candidate the first pass does not skip.\<close>

definition regular :: "LibEnv \<Rightarrow> string \<Rightarrow> bool" where
  "regular e p = (case lstat e p of None \<Rightarrow> False | Some k \<Rightarrow> k \<noteq> SymbolicLink)"

text \<open>The glob search.\<close>

fun is_glob :: "effect \<Rightarrow> bool" where
  "is_glob (GlobCall p) = True"
| "is_glob e = False"

text \<open>A file system with two versions of the library, none under the plain name.\<close>

definition env_llvm :: LibEnv where
  "env_llvm = \<lparr>getenv = (\<lambda>v. None),
     dlopen = (\<lambda>p. if p = ''/usr/lib/libLLVM-14.so'' then Some 14
                    else if p = ''/usr/lib/libLLVM-4294967296.so'' then Some 99
                    else if p = ''/opt/llvm/libLLVM.so'' then Some 7 else None),
     dlerror = ''cannot open shared object file'',
     glob = (\<lambda>p. if p = ''/usr/lib/libLLVM*.so''
                  then Some [''/usr/lib/libLLVM-14.so'', ''/usr/lib/libLLVM-4294967296.so'']
                  else None),
     lstat = (\<lambda>p. Some RegularFile)\<rparr>"

text \<open>A load attempt.\<close>

fun is_dlopen :: "effect \<Rightarrow> bool" where
  "is_dlopen (Dlopen p) = True"
| "is_dlopen e = False"

text \<open>The same file system with the variable of the LLVM library set to \<open>p\<close>.\<close>

definition env_override :: "string \<Rightarrow> LibEnv" where
  "env_override p =
     env_llvm\<lparr>getenv := (\<lambda>v. if v = ''ENOKI_LIBLLVM_PATH'' then Some p else None)\<rparr>"

subsection \<open>Example hosts for the LLVM backend\<close>

text \<open>The state before the first call, and two hosts with a library that has the core
  and the new pass-builder group but neither JIT engine: a 64-bit ARM Linux machine and
  an x86-64 machine with AVX2.\<close>

definition llvm_state0 :: LLVMState where
  "llvm_state0 = \<lparr>jitc_llvm_init_attempted = False, jitc_llvm_init_success = False,
     jitc_llvm_use_orcv2 = False, jitc_llvm_disasm_ctx = False, jitc_llvm_context = False,
     jitc_llvm_target_triple = None, jitc_llvm_target_cpu = None,
     jitc_llvm_target_features = None, jitc_llvm_vector_width = 0, jitc_llvm_max_align = 0,
     jitc_llvm_opaque_pointers = False, jitc_llvm_ones_str = False, api = None,
     llvm_trace = []\<rparr>"

fun example_group :: "capability \<Rightarrow> string list" where
  "example_group Core = [''LLVMGetGlobalContext'', ''LLVMCreateDisasm'']"
| "example_group PassBuilderNew = [''LLVMRunPasses'', ''LLVMCreatePassBuilderOptions'']"
| "example_group PassBuilderLegacy = [''LLVMCreatePassManager'', ''LLVMAddLICMPass'']"
| "example_group OrcV2 = [''LLVMOrcCreateLLJIT'']"
| "example_group MCJIT = [''LLVMCreateMCJITCompilerForModule'']"

definition env_arm_no_jit :: LLVMEnv where
  "env_arm_no_jit = \<lparr>
     library = Some [''LLVMGetGlobalContext'', ''LLVMCreateDisasm'', ''LLVMRunPasses'',
                     ''LLVMCreatePassBuilderOptions''],
     group_symbols = example_group,
     host_triple = ''aarch64-unknown-linux-gnu'', host_cpu = ''neoverse-n1'',
     host_features = ''+neon,+fp-armv8,+crc'',
     disasm_created = True, disasm_options_ok = True,
     orcv2_init_ok = False, mcjit_init_ok = False,
     version_major = 16, version_minor = 0, version_patch = 6,
     aarch64 = True, apple = False\<rparr>"

definition env_x86_no_jit :: LLVMEnv where
  "env_x86_no_jit = env_arm_no_jit\<lparr>host_triple := ''x86_64-pc-linux-gnu'', host_cpu := ''skylake'',
     host_features := ''+sse4.2,+avx,+avx2,+fma'', aarch64 := False\<rparr>"

section \<open>The scope guard never calls its function\<close>

text \<open>
  Claim C10. For every function object \<open>f\<close>, building a guard with the helper
  \<open>scope_guard\<close> and letting it be destroyed never invokes \<open>f\<close>: construction copies the
  function object, destruction destroys the copy, and the invocations seen in a guarded
  block are exactly those of its body.
\<close>

theorem scope_guard_never_invokes:
  "fst (scope_guard f) = Scope_guard f
   \<and> snd (scope_guard f) @ scope_guard_dtor (fst (scope_guard f)) = [CopyFunc f, DestroyFunc f]
   \<and> filter is_invoke (snd (scope_guard f) @ scope_guard_dtor (fst (scope_guard f))) = []
   \<and> filter is_invoke (guarded_scope f body) = filter is_invoke body"
  by (simp add: scope_guard_def scope_guard_ctor_def scope_guard_dtor_def guarded_scope_def)

section \<open>Thread states and synchronisation\<close>

lemma and_then_Inl [simp]: "and_then (Inl e) f = Inl e"
  by (simp add: and_then_def)

lemma and_then_Inr [simp]: "and_then (Inr x) f = f x"
  by (simp add: and_then_def)

lemma and_then_eq_Inr: "and_then r f = Inr y \<longleftrightarrow> (\<exists>x. r = Inr x \<and> f x = Inr y)"
  by (cases r) simp_all

lemma sublist_cuda_var: "sublist ''ENOKI_LIBCUDA_PATH'' msg_cuda_inactive"
  unfolding msg_cuda_inactive_def by (simp add: sublist_Cons_right)

lemma sublist_llvm_var: "sublist ''ENOKI_LIBLLVM_PATH'' msg_llvm_inactive"
  unfolding msg_llvm_inactive_def by (simp add: sublist_Cons_right)

lemma new_ts_fields [simp]:
  "has_cuda (new_ts p s) = has_cuda s" "has_llvm (new_ts p s) = has_llvm s"
  "devices (new_ts p s) = devices s"
  by (simp_all add: new_ts_def emit_def)

text \<open>
  Claim C5. A backend whose library failed to load is marked unavailable: \<open>has_cuda\<close>,
  respectively \<open>has_llvm\<close>, is false. Every attempt to create a ThreadState on such a
  backend raises an error whose message names the environment variable to set
  (\<open>ENOKI_LIBCUDA_PATH\<close> for CUDA, \<open>ENOKI_LIBLLVM_PATH\<close> for LLVM). The state at the raise
  differs from the state at the call by two trace entries only, the allocation and the
  release of the new object: the ThreadState list, the thread-local pointers and the
  heap are as they were. \<open>p\<close> is the address the allocator hands out, one not in use.
\<close>

theorem init_thread_state_unavailable:
  assumes "heap s p = None"
  shows "(\<not> has_cuda s \<longrightarrow>
            jit_init_thread_state pf drv p True s
              = Inl (Raise msg_cuda_inactive [S (cuda_fname pf)], s\<lparr>trace := trace s @ [New p, Delete p]\<rparr>))
       \<and> (\<not> has_llvm s \<longrightarrow>
            jit_init_thread_state pf drv p False s
              = Inl (Raise msg_llvm_inactive [S (llvm_fname pf)], s\<lparr>trace := trace s @ [New p, Delete p]\<rparr>))
       \<and> sublist ''ENOKI_LIBCUDA_PATH'' msg_cuda_inactive
       \<and> sublist ''ENOKI_LIBLLVM_PATH'' msg_llvm_inactive"
proof -
  have "(heap s)(p := None) = heap s"
    using assms by (simp add: fun_upd_idem)
  then have "delete_ts p (new_ts p s) = s\<lparr>trace := trace s @ [New p, Delete p]\<rparr>"
    by (simp add: delete_ts_def new_ts_def emit_def)
  then show ?thesis
    by (simp add: jit_init_thread_state_def Let_def sublist_cuda_var sublist_llvm_var)
qed

text \<open>Both branches of C5 on the state before any initialisation, on Linux.\<close>

theorem init_thread_state_unavailable_witness:
  "jit_init_thread_state Linux drv_ok 7 True state0
     = Inl (Raise msg_cuda_inactive [S ''libcuda.so''], state0\<lparr>trace := [New 7, Delete 7]\<rparr>)
   \<and> jit_init_thread_state Linux drv_ok 7 False state0
     = Inl (Raise msg_llvm_inactive [S ''libLLVM.so''], state0\<lparr>trace := [New 7, Delete 7]\<rparr>)
   \<and> tss (state0\<lparr>trace := [New 7, Delete 7]\<rparr>) = []
   \<and> heap (state0\<lparr>trace := [New 7, Delete 7]\<rparr>) 7 = None"
  using init_thread_state_unavailable [of state0 7 Linux drv_ok]
  by (simp add: state0_def)

lemma outcome_state_simps [simp]:
  "outcome_state (Inl (e, s)) = s" "outcome_state (Inr s) = s"
  by (simp_all add: outcome_state_def)

lemma waits_only_refl [simp]: "waits_only s s"
  by (simp add: waits_only_def)

lemma waits_only_trans: "waits_only s s1 \<Longrightarrow> waits_only s1 s2 \<Longrightarrow> waits_only s s2"
  by (auto simp: waits_only_def)

lemma waits_only_sync_thread_ts: "waits_only s (outcome_state (jit_sync_thread_ts drv p s))"
  by (auto simp: jit_sync_thread_ts_def waits_only_def cu_checked_def cu_def cuda_check_def
        emit_def task_wait_and_release_def Let_def split: option.splits)

lemma outcome_and_then:
  "outcome_state (and_then r f) = (case r of Inl (e, s) \<Rightarrow> s | Inr s \<Rightarrow> outcome_state (f s))"
  by (cases r) (auto simp: outcome_state_def)

lemma waits_only_and_then:
  assumes "waits_only s (outcome_state r)"
      and "\<And>s1. r = Inr s1 \<Longrightarrow> waits_only s1 (outcome_state (f s1))"
  shows "waits_only s (outcome_state (and_then r f))"
proof (cases r)
  case (Inl x)
  with assms(1) show ?thesis by simp
next
  case (Inr s1)
  with assms show ?thesis by (auto intro: waits_only_trans)
qed

lemma waits_only_sync_all_loop: "waits_only s (outcome_state (sync_all_loop drv as s))"
proof (induction as arbitrary: s)
  case Nil
  show ?case by simp
next
  case (Cons a as)
  show ?case
    by (simp, rule waits_only_and_then, rule waits_only_sync_thread_ts, rule Cons.IH)
qed

lemma waits_only_sync_cpu_loop: "waits_only s (outcome_state (sync_cpu_loop drv as s))"
proof (induction as arbitrary: s)
  case Nil
  show ?case by simp
next
  case (Cons a as)
  show ?case
  proof (cases "heap s a")
    case None
    then show ?thesis by simp
  next
    case (Some ts)
    show ?thesis
    proof (cases "cuda ts")
      case True
      with Some show ?thesis by (simp add: Cons.IH)
    next
      case False
      with Some show ?thesis
        by (simp, intro waits_only_and_then waits_only_sync_thread_ts Cons.IH)
    qed
  qed
qed

lemma mutex_trace_blocking: "list_all blocking es \<Longrightarrow> mutex_trace False es = Some False"
proof (induction es)
  case Nil
  show ?case by simp
next
  case (Cons e es)
  then show ?case by (cases e) auto
qed

lemma mutex_trace_append:
  "mutex_trace h (xs @ ys) = (case mutex_trace h xs of None \<Rightarrow> None | Some h' \<Rightarrow> mutex_trace h' ys)"
  by (induction xs arbitrary: h) auto

lemma disciplined_refl [simp]: "disciplined s s"
  by (simp add: disciplined_def)

lemma disciplined_trans: "disciplined s s1 \<Longrightarrow> disciplined s1 s2 \<Longrightarrow> disciplined s s2"
  by (auto simp: disciplined_def mutex_trace_append)

lemma disciplined_waits: "\<not> mutex_locked s \<Longrightarrow> waits_only s s' \<Longrightarrow> disciplined s s'"
  by (auto simp: disciplined_def waits_only_def mutex_trace_blocking)

lemma disciplined_unlock: "mutex_locked s \<Longrightarrow> disciplined s (unlock_guard_ctor s)"
  by (simp add: disciplined_def unlock_guard_ctor_def emit_def)

lemma disciplined_lock: "\<not> mutex_locked s \<Longrightarrow> disciplined s (unlock_guard_dtor s)"
  by (simp add: disciplined_def unlock_guard_dtor_def emit_def)

lemma disciplined_snapshot: "mutex_locked s \<Longrightarrow> disciplined s (emit (Snapshot xs) s)"
  by (simp add: disciplined_def emit_def)

lemma guard_fields [simp]:
  "mutex_locked (unlock_guard_ctor s) = False" "mutex_locked (unlock_guard_dtor s) = True"
  "thread_state_cuda (unlock_guard_ctor s) = thread_state_cuda s"
  "thread_state_llvm (unlock_guard_ctor s) = thread_state_llvm s"
  "thread_state_llvm (unlock_guard_dtor s) = thread_state_llvm s"
  "tss (unlock_guard_ctor s) = tss s" "tss (unlock_guard_dtor s) = tss s"
  "heap (unlock_guard_ctor s) = heap s" "heap (unlock_guard_dtor s) = heap s"
  "trace (unlock_guard_ctor s) = trace s @ [Unlock]" "trace (unlock_guard_dtor s) = trace s @ [Lock]"
  by (simp_all add: unlock_guard_ctor_def unlock_guard_dtor_def emit_def)

lemma emit_fields [simp]:
  "mutex_locked (emit e s) = mutex_locked s" "tss (emit e s) = tss s" "heap (emit e s) = heap s"
  "thread_state_cuda (emit e s) = thread_state_cuda s"
  "thread_state_llvm (emit e s) = thread_state_llvm s"
  "trace (emit e s) = trace s @ [e]"
  by (simp_all add: emit_def)

lemma lock_disciplineI:
  assumes "mutex_locked s" and "disciplined s (outcome_state r)"
      and "\<And>s'. r = Inr s' \<Longrightarrow> mutex_locked s'"
  shows "lock_discipline s r"
proof -
  from assms(2) obtain es where es: "trace (outcome_state r) = trace s @ es"
      "mutex_trace (mutex_locked s) es = Some (mutex_locked (outcome_state r))"
    by (auto simp: disciplined_def)
  then have "new_trace s (outcome_state r) = es" by (simp add: new_trace_def)
  with es assms(1,3) show ?thesis
    by (cases r) (auto simp: lock_discipline_def)
qed

text \<open>A guarded region: unlock, a body that only waits, lock.\<close>

lemma guarded_region:
  assumes "mutex_locked s" and "waits_only (unlock_guard_ctor s) (outcome_state r)"
  shows "disciplined s (outcome_state (and_then r (\<lambda>s2. Inr (unlock_guard_dtor s2))))"
    and "\<not> mutex_locked (outcome_state r)"
proof -
  have u: "disciplined s (unlock_guard_ctor s)" using assms(1) by (rule disciplined_unlock)
  have w: "disciplined (unlock_guard_ctor s) (outcome_state r)"
    using assms(2) by (intro disciplined_waits) simp_all
  show nl: "\<not> mutex_locked (outcome_state r)"
    using assms(2) by (simp add: waits_only_def)
  show "disciplined s (outcome_state (and_then r (\<lambda>s2. Inr (unlock_guard_dtor s2))))"
  proof (cases r)
    case (Inl x)
    with u w show ?thesis by (cases x) (auto intro: disciplined_trans)
  next
    case (Inr s2)
    with nl have "disciplined s2 (unlock_guard_dtor s2)" by (simp add: disciplined_lock)
    with u w Inr show ?thesis by (auto intro: disciplined_trans)
  qed
qed

lemma sync_thread_disciplined:
  assumes "mutex_locked s"
  shows "lock_discipline s (jit_sync_thread drv s)"
proof -
  let ?body = "and_then (jit_sync_thread_ts drv (thread_state_cuda s) (unlock_guard_ctor s))
                 (\<lambda>s1. jit_sync_thread_ts drv (thread_state_llvm s1) s1)"
  have eq: "jit_sync_thread drv s = and_then ?body (\<lambda>s2. Inr (unlock_guard_dtor s2))"
    by (cases "jit_sync_thread_ts drv (thread_state_cuda s) (unlock_guard_ctor s)")
       (simp_all add: jit_sync_thread_def)
  have w: "waits_only (unlock_guard_ctor s) (outcome_state ?body)"
    by (intro waits_only_and_then waits_only_sync_thread_ts)
  show ?thesis
    unfolding eq
    by (rule lock_disciplineI[OF assms guarded_region(1)[OF assms w]])
       (auto simp: and_then_eq_Inr)
qed

lemma sync_all_devices_disciplined:
  assumes "mutex_locked s"
  shows "lock_discipline s (jit_sync_all_devices drv s)"
proof -
  let ?s0 = "emit (Snapshot (tss s)) s"
  have l0: "mutex_locked ?s0" using assms by simp
  have w: "waits_only (unlock_guard_ctor ?s0) (outcome_state (sync_all_loop drv (tss s) (unlock_guard_ctor ?s0)))"
    by (rule waits_only_sync_all_loop)
  have "disciplined ?s0 (outcome_state (jit_sync_all_devices drv s))"
    using guarded_region(1)[OF l0 w] by (simp add: jit_sync_all_devices_def Let_def)
  then have "disciplined s (outcome_state (jit_sync_all_devices drv s))"
    using disciplined_snapshot[OF assms] by (blast intro: disciplined_trans)
  then show ?thesis
    by (rule lock_disciplineI[OF assms])
       (auto simp: jit_sync_all_devices_def Let_def and_then_eq_Inr)
qed

lemma waits_only_ctx_sync:
  "waits_only s (outcome_state (cu_checked drv c CuCtxSynchronize s))"
  by (auto simp: waits_only_def cu_checked_def cu_def cuda_check_def)

lemma sync_device_gpu_disciplined:
  assumes "mutex_locked s"
  shows "disciplined s (outcome_state (sync_device_gpu drv s))"
    and "\<And>s'. sync_device_gpu drv s = Inr s' \<Longrightarrow> mutex_locked s'"
proof -
  show "disciplined s (outcome_state (sync_device_gpu drv s))"
  proof (cases "thread_state_cuda s")
    case None
    then show ?thesis by (simp add: sync_device_gpu_def)
  next
    case (Some a)
    show ?thesis
    proof (cases "heap s a")
      case None
      with Some assms show ?thesis by (simp add: sync_device_gpu_def disciplined_unlock)
    next
      case (Some ts)
      with \<open>thread_state_cuda s = Some a\<close>
        guarded_region(1)[OF assms waits_only_ctx_sync, of drv "Some (ts_context ts)"]
      show ?thesis by (simp add: sync_device_gpu_def)
    qed
  qed
  show "\<And>s'. sync_device_gpu drv s = Inr s' \<Longrightarrow> mutex_locked s'"
    using assms
    by (auto simp: sync_device_gpu_def and_then_eq_Inr split: option.splits)
qed

lemma sync_device_cpu_disciplined:
  assumes "mutex_locked s"
  shows "disciplined s (outcome_state (sync_device_cpu drv s))"
    and "\<And>s'. sync_device_cpu drv s = Inr s' \<Longrightarrow> mutex_locked s'"
proof -
  let ?s0 = "emit (Snapshot (tss s)) s"
  have l0: "mutex_locked ?s0" using assms by simp
  have w: "waits_only (unlock_guard_ctor ?s0) (outcome_state (sync_cpu_loop drv (tss s) (unlock_guard_ctor ?s0)))"
    by (rule waits_only_sync_cpu_loop)
  have "disciplined s (outcome_state (and_then (sync_cpu_loop drv (tss s) (unlock_guard_ctor ?s0))
           (\<lambda>s2. Inr (unlock_guard_dtor s2))))"
    using guarded_region(1)[OF l0 w] disciplined_snapshot[OF assms]
    by (blast intro: disciplined_trans)
  then show "disciplined s (outcome_state (sync_device_cpu drv s))"
    by (simp add: sync_device_cpu_def Let_def)
  show "\<And>s'. sync_device_cpu drv s = Inr s' \<Longrightarrow> mutex_locked s'"
    using assms
    by (auto simp: sync_device_cpu_def Let_def and_then_eq_Inr split: if_splits)
qed

lemma sync_device_disciplined:
  assumes "mutex_locked s"
  shows "lock_discipline s (jit_sync_device drv s)"
proof (rule lock_disciplineI[OF assms])
  show "disciplined s (outcome_state (jit_sync_device drv s))"
  proof (cases "sync_device_gpu drv s")
    case (Inl x)
    with sync_device_gpu_disciplined(1)[OF assms, of drv] show ?thesis
      by (simp add: jit_sync_device_def)
  next
    case (Inr s1)
    with sync_device_gpu_disciplined[OF assms, of drv]
    have "disciplined s s1" "mutex_locked s1" by simp_all
    with sync_device_cpu_disciplined(1)[of s1 drv] Inr show ?thesis
      by (auto simp: jit_sync_device_def intro: disciplined_trans)
  qed
  show "\<And>s'. jit_sync_device drv s = Inr s' \<Longrightarrow> mutex_locked s'"
    using sync_device_gpu_disciplined(2)[OF assms] sync_device_cpu_disciplined(2)
    by (fastforce simp: jit_sync_device_def and_then_eq_Inr)
qed

lemma sync_all_devices_snapshot:
  "jit_sync_all_devices drv s = Inr s' \<Longrightarrow> take 2 (new_trace s s') = [Snapshot (tss s), Unlock]"
proof -
  assume a: "jit_sync_all_devices drv s = Inr s'"
  let ?s0 = "unlock_guard_ctor (emit (Snapshot (tss s)) s)"
  from a obtain s2 where s2: "sync_all_loop drv (tss s) ?s0 = Inr s2" "s' = unlock_guard_dtor s2"
    by (auto simp: jit_sync_all_devices_def Let_def and_then_eq_Inr)
  from waits_only_sync_all_loop[of ?s0 drv "tss s"] s2(1)
  obtain es where "trace s2 = trace ?s0 @ es" by (auto simp: waits_only_def)
  with s2(2) show ?thesis by (simp add: new_trace_def)
qed

lemma sync_device_cpu_snapshot:
  assumes "sync_device_cpu drv s = Inr s'" and "thread_state_llvm s \<noteq> None"
  shows "take 2 (new_trace s s') = [Snapshot (tss s), Unlock]"
proof -
  let ?s0 = "unlock_guard_ctor (emit (Snapshot (tss s)) s)"
  from assms obtain s2 where s2: "sync_cpu_loop drv (tss s) ?s0 = Inr s2" "s' = unlock_guard_dtor s2"
    by (auto simp: sync_device_cpu_def Let_def and_then_eq_Inr)
  from waits_only_sync_cpu_loop[of ?s0 drv "tss s"] s2(1)
  obtain es where "trace s2 = trace ?s0 @ es" by (auto simp: waits_only_def)
  with s2(2) show ?thesis by (simp add: new_trace_def)
qed

lemma sync_cpu_loop_heap:
  "sync_cpu_loop drv as s = Inr s' \<Longrightarrow>
     heap s' a = (if a \<in> set as
                  then map_option (\<lambda>ts. if cuda ts then ts else ts\<lparr>task := None\<rparr>) (heap s a)
                  else heap s a)"
proof (induction as arbitrary: s)
  case Nil
  then show ?case by simp
next
  case (Cons b as)
  from Cons.prems obtain tb where tb: "heap s b = Some tb"
    by (cases "heap s b") auto
  show ?case
  proof (cases "cuda tb")
    case True
    with tb Cons.prems have "sync_cpu_loop drv as s = Inr s'" by simp
    from Cons.IH[OF this] tb True show ?thesis by auto
  next
    case False
    let ?s1 = "(task_wait_and_release (task tb) s)\<lparr>heap := (heap s)(b \<mapsto> tb\<lparr>task := None\<rparr>)\<rparr>"
    from tb False Cons.prems have "sync_cpu_loop drv as ?s1 = Inr s'"
      by (simp add: jit_sync_thread_ts_def Let_def task_wait_and_release_def)
    from Cons.IH[OF this] tb False show ?thesis
      by (auto simp: task_wait_and_release_def)
  qed
qed

lemma sync_cpu_loop_trace:
  "sync_cpu_loop drv as s = Inr s' \<Longrightarrow> \<exists>es. trace s' = trace s @ es"
  using waits_only_sync_cpu_loop[of s drv as] by (auto simp: waits_only_def)

lemma sync_cpu_loop_waits:
  "sync_cpu_loop drv as s = Inr s' \<Longrightarrow> a \<in> set as \<Longrightarrow> heap s a = Some ts \<Longrightarrow> \<not> cuda ts \<Longrightarrow>
     \<exists>es. trace s' = trace s @ es \<and> TaskWaitAndRelease (task ts) \<in> set es"
proof (induction as arbitrary: s)
  case Nil
  then show ?case by simp
next
  case (Cons b as)
  from Cons.prems(1) obtain tb where tb: "heap s b = Some tb"
    by (cases "heap s b") auto
  show ?case
  proof (cases "cuda tb")
    case True
    with tb Cons.prems have l: "sync_cpu_loop drv as s = Inr s'" and "a \<in> set as" by auto
    with Cons.IH[OF l] Cons.prems show ?thesis by simp
  next
    case False
    let ?s1 = "(task_wait_and_release (task tb) s)\<lparr>heap := (heap s)(b \<mapsto> tb\<lparr>task := None\<rparr>)\<rparr>"
    from tb False Cons.prems have l: "sync_cpu_loop drv as ?s1 = Inr s'"
      by (simp add: jit_sync_thread_ts_def Let_def task_wait_and_release_def)
    have t1: "trace ?s1 = trace s @ [TaskWaitAndRelease (task tb)]"
      by (simp add: task_wait_and_release_def)
    show ?thesis
    proof (cases "a = b")
      case True
      with tb Cons.prems have "ts = tb" by simp
      with sync_cpu_loop_trace[OF l] t1 show ?thesis by auto
    next
      case False
      with Cons.prems have "a \<in> set as" "heap ?s1 a = Some ts"
        by (simp_all add: task_wait_and_release_def)
      from Cons.IH[OF l this \<open>\<not> cuda ts\<close>] t1 show ?thesis by auto
    qed
  qed
qed

lemma sync_device_gpu_Inr:
  assumes "sync_device_gpu drv s = Inr s1"
  shows "heap s1 = heap s" "tss s1 = tss s" "thread_state_llvm s1 = thread_state_llvm s"
    and "\<exists>es. trace s1 = trace s @ es \<and> filter is_task_wait es = []
           \<and> (case thread_state_cuda s of
                None \<Rightarrow> True
              | Some a \<Rightarrow>
                 (case heap s a of
                    None \<Rightarrow> False
                  | Some ts \<Rightarrow>
                      Cu (Some (ts_context ts)) CuCtxSynchronize \<in> set es
                      \<and> cu_result drv (Some (ts_context ts)) CuCtxSynchronize = CUDA_SUCCESS))"
  using assms
  by (auto simp: sync_device_gpu_def and_then_eq_Inr cu_checked_def cu_def cuda_check_def
        split: option.splits if_splits)

text \<open>
  Claim C1, amended. After \<open>jit_sync_device\<close> returns, the context of the calling
  thread's CUDA ThreadState (if it has one) has been synchronised with success; if the
  calling thread has an LLVM ThreadState, every CPU ThreadState of the global list has
  had its task waited for and reset to null, whichever thread owns it; if the calling
  thread has no LLVM ThreadState, no task is waited for and no ThreadState changes.
\<close>

theorem sync_device_waits:
  assumes "jit_sync_device drv s = Inr s'"
  shows "gpu_context_synced drv s s'
       \<and> (thread_state_llvm s \<noteq> None \<longrightarrow> cpu_states_synced s s')
       \<and> (thread_state_llvm s = None \<longrightarrow> filter is_task_wait (new_trace s s') = [] \<and> heap s' = heap s)"
proof -
  from assms obtain s1 where g: "sync_device_gpu drv s = Inr s1" and c: "sync_device_cpu drv s1 = Inr s'"
    by (auto simp: jit_sync_device_def and_then_eq_Inr)
  note g1 = sync_device_gpu_Inr[OF g]
  from g1(4) obtain es1 where es1: "trace s1 = trace s @ es1" "filter is_task_wait es1 = []"
    and gpu: "case thread_state_cuda s of
                None \<Rightarrow> True
              | Some a \<Rightarrow>
                 (case heap s a of
                    None \<Rightarrow> False
                  | Some ts \<Rightarrow>
                      Cu (Some (ts_context ts)) CuCtxSynchronize \<in> set es1
                      \<and> cu_result drv (Some (ts_context ts)) CuCtxSynchronize = CUDA_SUCCESS)"
    by blast
  show ?thesis
  proof (cases "thread_state_llvm s")
    case None
    with c g1 have "s' = s1" by (simp add: sync_device_cpu_def)
    with None es1 gpu g1 show ?thesis
      by (auto simp: gpu_context_synced_def new_trace_def split: option.splits)
  next
    case (Some l)
    let ?s0 = "unlock_guard_ctor (emit (Snapshot (tss s1)) s1)"
    from c Some g1 obtain s2 where loop: "sync_cpu_loop drv (tss s) ?s0 = Inr s2"
      and s': "s' = unlock_guard_dtor s2"
      by (auto simp: sync_device_cpu_def Let_def and_then_eq_Inr)
    from sync_cpu_loop_trace[OF loop] obtain es2 where es2: "trace s2 = trace ?s0 @ es2" by blast
    have nt: "new_trace s s' = es1 @ [Snapshot (tss s1), Unlock] @ es2 @ [Lock]"
      using es1 es2 s' by (simp add: new_trace_def)
    have "cpu_states_synced s s'"
      unfolding cpu_states_synced_def
    proof
      fix a assume a: "a \<in> set (tss s)"
      show "case heap s a of None \<Rightarrow> True
            | Some ts \<Rightarrow> cuda ts \<or> (TaskWaitAndRelease (task ts) \<in> set (new_trace s s')
                 \<and> map_option task (heap s' a) = Some None)"
      proof (cases "heap s a")
        case None
        then show ?thesis by simp
      next
        case (Some ts)
        show ?thesis
        proof (cases "cuda ts")
          case True
          with Some show ?thesis by simp
        next
          case False
          have h0: "heap ?s0 a = Some ts" using Some g1 by simp
          from sync_cpu_loop_waits[OF loop a h0 False] es2
          have "TaskWaitAndRelease (task ts) \<in> set es2" by auto
          moreover from sync_cpu_loop_heap[OF loop, of a] a h0 False s'
          have "map_option task (heap s' a) = Some None" by simp
          ultimately show ?thesis using Some nt by simp
        qed
      qed
    qed
    moreover have "gpu_context_synced drv s s'"
      using gpu nt by (auto simp: gpu_context_synced_def split: option.splits)
    ultimately show ?thesis using Some by simp
  qed
qed

lemmas sync_defs = jit_sync_device_def sync_device_gpu_def sync_device_cpu_def
  jit_sync_thread_def jit_sync_all_devices_def jit_sync_thread_ts_def
  cu_checked_def cu_def cuda_check_def task_wait_and_release_def
  unlock_guard_ctor_def unlock_guard_dtor_def emit_def Let_def

lemmas example_defs = st_threads_def state0_def drv_ok_def ts_gpu_def ts_cpu_def ThreadState0_def

text \<open>
  Claim C1 as stated asks that \<open>jit_sync_device\<close> waits for every CPU ThreadState of the
  list, whichever thread calls. It does not when the calling thread has no LLVM
  ThreadState: with a CUDA ThreadState 1 of the caller and the CPU ThreadStates 2 and 3
  of other threads, the call returns after synchronising the context, and the tasks 5
  and 6 are still pending.
\<close>

theorem sync_device_counterexample:
  "jit_sync_device drv_ok st_threads
     = Inr (st_threads\<lparr>trace := [Unlock, Cu (Some 10) CuCtxSynchronize, Lock]\<rparr>)
   \<and> \<not> cpu_states_synced st_threads
         (st_threads\<lparr>trace := [Unlock, Cu (Some 10) CuCtxSynchronize, Lock]\<rparr>)"
  by (simp add: sync_defs example_defs cpu_states_synced_def new_trace_def)

text \<open>The amended C1 where the caller owns ThreadState 2: the tasks of 2 and 3 are awaited.\<close>

theorem sync_device_waits_witness:
  "trace (outcome_state (jit_sync_device drv_ok (st_threads\<lparr>thread_state_llvm := Some 2\<rparr>)))
     = [Unlock, Cu (Some 10) CuCtxSynchronize, Lock, Snapshot [1, 2, 3], Unlock,
        TaskWaitAndRelease (Some 5), TaskWaitAndRelease (Some 6), Lock]
   \<and> gpu_context_synced drv_ok (st_threads\<lparr>thread_state_llvm := Some 2\<rparr>)
        (outcome_state (jit_sync_device drv_ok (st_threads\<lparr>thread_state_llvm := Some 2\<rparr>)))
   \<and> cpu_states_synced (st_threads\<lparr>thread_state_llvm := Some 2\<rparr>)
        (outcome_state (jit_sync_device drv_ok (st_threads\<lparr>thread_state_llvm := Some 2\<rparr>)))"
proof -
  let ?s = "st_threads\<lparr>thread_state_llvm := Some 2\<rparr>"
  have "\<exists>s'. jit_sync_device drv_ok ?s = Inr s'"
    by (simp add: sync_defs example_defs)
  then obtain s' where e: "jit_sync_device drv_ok ?s = Inr s'" by blast
  have l: "thread_state_llvm ?s \<noteq> None" by simp
  have t: "trace (outcome_state (jit_sync_device drv_ok ?s))
     = [Unlock, Cu (Some 10) CuCtxSynchronize, Lock, Snapshot [1, 2, 3], Unlock,
        TaskWaitAndRelease (Some 5), TaskWaitAndRelease (Some 6), Lock]"
    by (simp add: sync_defs example_defs)
  from sync_device_waits[OF e] l t e show ?thesis by simp
qed

text \<open>
  Claim C3. Called with the mutex held, each of \<open>jit_sync_thread()\<close>,
  \<open>jit_sync_device()\<close> and \<open>jit_sync_all_devices()\<close> waits on a stream, a context or a
  task only while the mutex is released (\<open>mutex_trace\<close> rejects a trace that blocks,
  locks or unlocks in the wrong state, and one that copies the list without the mutex),
  and holds the mutex again when it returns. Where the ThreadState list is iterated, the
  copy of the list is the entry right before the unlock.
\<close>

theorem sync_releases_mutex:
  assumes "mutex_locked s"
  shows "lock_discipline s (jit_sync_thread drv s)
       \<and> lock_discipline s (jit_sync_device drv s)
       \<and> lock_discipline s (jit_sync_all_devices drv s)
       \<and> (\<forall>s'. jit_sync_all_devices drv s = Inr s' \<longrightarrow>
             take 2 (new_trace s s') = [Snapshot (tss s), Unlock])
       \<and> (\<forall>s1 s'. sync_device_gpu drv s = Inr s1 \<longrightarrow> sync_device_cpu drv s1 = Inr s' \<longrightarrow>
             thread_state_llvm s \<noteq> None \<longrightarrow>
             take 2 (new_trace s1 s') = [Snapshot (tss s), Unlock])"
  using sync_thread_disciplined[OF assms] sync_device_disciplined[OF assms]
    sync_all_devices_disciplined[OF assms] sync_all_devices_snapshot
    sync_device_cpu_snapshot sync_device_gpu_Inr(2,3)
  by metis

text \<open>C3 on three ThreadStates, with the traces of two of the calls.\<close>

theorem sync_releases_mutex_witness:
  "mutex_locked (st_threads\<lparr>thread_state_llvm := Some 2\<rparr>)
   \<and> lock_discipline (st_threads\<lparr>thread_state_llvm := Some 2\<rparr>)
        (jit_sync_thread drv_ok (st_threads\<lparr>thread_state_llvm := Some 2\<rparr>))
   \<and> lock_discipline (st_threads\<lparr>thread_state_llvm := Some 2\<rparr>)
        (jit_sync_device drv_ok (st_threads\<lparr>thread_state_llvm := Some 2\<rparr>))
   \<and> lock_discipline (st_threads\<lparr>thread_state_llvm := Some 2\<rparr>)
        (jit_sync_all_devices drv_ok (st_threads\<lparr>thread_state_llvm := Some 2\<rparr>))
   \<and> trace (outcome_state (jit_sync_thread drv_ok (st_threads\<lparr>thread_state_llvm := Some 2\<rparr>)))
       = [Unlock, Cu (Some 10) (CuStreamSynchronize 11), TaskWaitAndRelease (Some 5), Lock]
   \<and> trace (outcome_state (jit_sync_all_devices drv_ok (st_threads\<lparr>thread_state_llvm := Some 2\<rparr>)))
       = [Snapshot [1, 2, 3], Unlock, Cu (Some 10) (CuStreamSynchronize 11),
          TaskWaitAndRelease (Some 5), TaskWaitAndRelease (Some 6), Lock]"
proof -
  let ?s = "st_threads\<lparr>thread_state_llvm := Some 2\<rparr>"
  have m: "mutex_locked ?s" by (simp add: example_defs)
  have t1: "trace (outcome_state (jit_sync_thread drv_ok ?s))
       = [Unlock, Cu (Some 10) (CuStreamSynchronize 11), TaskWaitAndRelease (Some 5), Lock]"
    by (simp add: sync_defs example_defs)
  have t2: "trace (outcome_state (jit_sync_all_devices drv_ok ?s))
       = [Snapshot [1, 2, 3], Unlock, Cu (Some 10) (CuStreamSynchronize 11),
          TaskWaitAndRelease (Some 5), TaskWaitAndRelease (Some 6), Lock]"
    by (simp add: sync_defs example_defs)
  from sync_releases_mutex[OF m, of drv_ok] m t1 t2 show ?thesis by simp
qed

section \<open>Peer-to-peer access\<close>

lemma p2p_inner_returns:
  "(\<exists>s'. p2p_inner drv a bs s = Inr s') \<longleftrightarrow>
     (\<forall>b\<in>set bs. dev_id a \<noteq> dev_id b \<longrightarrow> p2p_accepts drv a b)"
proof (induction bs arbitrary: s)
  case Nil
  show ?case by simp
next
  case (Cons b bs)
  show ?case
    by (simp add: Cons.IH p2p_accepts_def cu_checked_def cu_def cuda_check_def Let_def)
qed

lemma p2p_inner_done:
  "p2p_inner drv a bs s = Inr s' \<Longrightarrow>
     devices s' = devices s
     \<and> (\<exists>es. trace s' = trace s @ es
           \<and> (\<forall>b\<in>set bs. dev_id a \<noteq> dev_id b \<longrightarrow> p2p_done drv a b es))"
proof (induction bs arbitrary: s)
  case Nil
  then show ?case by simp
next
  case (Cons b bs)
  show ?case
  proof (cases "dev_id a = dev_id b")
    case True
    with Cons.prems have "p2p_inner drv a bs s = Inr s'" by simp
    from Cons.IH[OF this] True show ?thesis by simp
  next
    case False
    let ?q = "Cu (Some (dev_context a)) (CuDeviceCanAccessPeer (dev_id a) (dev_id b))"
    let ?e = "Cu (Some (dev_context a)) (CuCtxEnablePeerAccess (dev_context b))"
    let ?l = "Log Debug '' - Enabling peer access from device %i -> %i'' [I (dev_id a), I (dev_id b)]"
    show ?thesis
    proof (cases "peer_ok drv (dev_id a) (dev_id b)")
      case True
      let ?s3 = "emit ?e (emit ?l (emit ?q s))"
      from Cons.prems False True have "p2p_inner drv a bs ?s3 = Inr s'"
        by (auto simp: cu_checked_def cu_def cuda_check_def Let_def jit_log_def
              split: if_splits)
      from Cons.IH[OF this] obtain es where
        es: "devices s' = devices s" "trace s' = trace s @ [?q, ?l, ?e] @ es"
            "\<forall>b\<in>set bs. dev_id a \<noteq> dev_id b \<longrightarrow> p2p_done drv a b es"
        by (auto simp: emit_def)
      then have "\<forall>b'\<in>set (b # bs). dev_id a \<noteq> dev_id b' \<longrightarrow> p2p_done drv a b' ([?q, ?l, ?e] @ es)"
        by (auto simp: p2p_done_def)
      with es show ?thesis by blast
    next
      case no: False
      let ?s1 = "emit ?q s"
      from Cons.prems False no have "p2p_inner drv a bs ?s1 = Inr s'"
        by (auto simp: cu_checked_def cu_def cuda_check_def split: if_splits)
      from Cons.IH[OF this] obtain es where
        es: "devices s' = devices s" "trace s' = trace s @ [?q] @ es"
            "\<forall>b\<in>set bs. dev_id a \<noteq> dev_id b \<longrightarrow> p2p_done drv a b es"
        by (auto simp: emit_def)
      then have "\<forall>b'\<in>set (b # bs). dev_id a \<noteq> dev_id b' \<longrightarrow> p2p_done drv a b' ([?q] @ es)"
        using no by (auto simp: p2p_done_def)
      with es show ?thesis by blast
    qed
  qed
qed

lemma p2p_done_mono: "p2p_done drv a b es \<Longrightarrow> p2p_done drv a b (pre @ es @ post)"
  by (auto simp: p2p_done_def)

lemma p2p_outer_returns:
  "(\<exists>s'. p2p_outer drv as ds s = Inr s') \<longleftrightarrow>
     (\<forall>a\<in>set as. \<forall>b\<in>set ds. dev_id a \<noteq> dev_id b \<longrightarrow> p2p_accepts drv a b)"
proof (induction as arbitrary: s)
  case Nil
  show ?case by simp
next
  case (Cons a as)
  show ?case
  proof (cases "p2p_inner drv a ds s")
    case (Inl x)
    with p2p_inner_returns[of drv a ds s] show ?thesis by auto
  next
    case (Inr s1)
    with p2p_inner_returns[of drv a ds s] Cons.IH[of s1] show ?thesis by auto
  qed
qed

lemma p2p_outer_done:
  "p2p_outer drv as ds s = Inr s' \<Longrightarrow>
     devices s' = devices s
     \<and> (\<exists>es. trace s' = trace s @ es
           \<and> (\<forall>a\<in>set as. \<forall>b\<in>set ds. dev_id a \<noteq> dev_id b \<longrightarrow> p2p_done drv a b es))"
proof (induction as arbitrary: s)
  case Nil
  then show ?case by simp
next
  case (Cons a as)
  from Cons.prems obtain s1 where s1: "p2p_inner drv a ds s = Inr s1" "p2p_outer drv as ds s1 = Inr s'"
    by (auto simp: and_then_eq_Inr)
  from p2p_inner_done[OF s1(1)] obtain es1 where
    es1: "devices s1 = devices s" "trace s1 = trace s @ es1"
         "\<forall>b\<in>set ds. dev_id a \<noteq> dev_id b \<longrightarrow> p2p_done drv a b es1"
    by blast
  from Cons.IH[OF s1(2)] obtain es2 where
    es2: "devices s' = devices s1" "trace s' = trace s1 @ es2"
         "\<forall>a\<in>set as. \<forall>b\<in>set ds. dev_id a \<noteq> dev_id b \<longrightarrow> p2p_done drv a b es2"
    by blast
  have "\<forall>a'\<in>set (a # as). \<forall>b\<in>set ds. dev_id a' \<noteq> dev_id b \<longrightarrow> p2p_done drv a' b (es1 @ es2)"
    using es1(3) es2(3) p2p_done_mono[of drv _ _ es1 "[]" es2] p2p_done_mono[of drv _ _ es2 es1 "[]"]
    by auto
  with es1 es2 show ?case by auto
qed

text \<open>
  Claim C7. The peer-to-peer loop of the initialisation returns exactly when, for every
  ordered pair of accepted devices with different ids, the accessibility query succeeds
  and, where access is supported, enabling it reports success or that it is already
  enabled: the latter status is not an error. When the loop has returned, every such
  pair \<open>(a, b)\<close> has been queried and, where supported, access to \<open>b\<close>'s context has
  been enabled with \<open>a\<close>'s context current.
\<close>

theorem init_p2p_all_pairs:
  "((\<exists>s'. jit_init_p2p drv s = Inr s') \<longleftrightarrow>
      (\<forall>a\<in>set (devices s). \<forall>b\<in>set (devices s). dev_id a \<noteq> dev_id b \<longrightarrow> p2p_accepts drv a b))
   \<and> (\<forall>s'. jit_init_p2p drv s = Inr s' \<longrightarrow>
         (\<forall>a\<in>set (devices s). \<forall>b\<in>set (devices s). dev_id a \<noteq> dev_id b \<longrightarrow>
            p2p_done drv a b (new_trace s s')))"
proof -
  have "\<forall>a\<in>set (devices s). \<forall>b\<in>set (devices s). dev_id a \<noteq> dev_id b \<longrightarrow>
            p2p_done drv a b (new_trace s s')" if "jit_init_p2p drv s = Inr s'" for s'
    using p2p_outer_done[of drv "devices s" "devices s" s s'] that
    by (auto simp: jit_init_p2p_def new_trace_def)
  then show ?thesis
    using p2p_outer_returns[of drv "devices s" "devices s" s]
    by (simp add: jit_init_p2p_def)
qed

text \<open>C7 on two devices, the driver answering that access from 0 to 1 is already
  enabled: the loop returns, and both directions were queried and enabled.\<close>

theorem init_p2p_all_pairs_witness:
  "jit_init_p2p drv_p2p st_two_devices = Inr (st_two_devices\<lparr>trace := p2p_trace\<rparr>)
   \<and> cu_result drv_p2p (Some 10) (CuCtxEnablePeerAccess 20) = CUDA_ERROR_PEER_ACCESS_ALREADY_ENABLED
   \<and> p2p_done drv_p2p dev0 dev1 p2p_trace
   \<and> p2p_done drv_p2p dev1 dev0 p2p_trace"
proof -
  have e: "jit_init_p2p drv_p2p st_two_devices = Inr (st_two_devices\<lparr>trace := p2p_trace\<rparr>)"
    by (simp add: jit_init_p2p_def st_two_devices_def state0_def dev0_def dev1_def drv_p2p_def
          drv_ok_def cu_checked_def cu_def cuda_check_def jit_log_def emit_def p2p_trace_def Let_def)
  have n: "new_trace st_two_devices (st_two_devices\<lparr>trace := p2p_trace\<rparr>) = p2p_trace"
    by (simp add: new_trace_def st_two_devices_def state0_def)
  have d: "dev_id dev0 \<noteq> dev_id dev1" "devices st_two_devices = [dev0, dev1]"
    by (simp_all add: dev0_def dev1_def st_two_devices_def)
  from init_p2p_all_pairs[of drv_p2p st_two_devices] e n d
  have "p2p_done drv_p2p dev0 dev1 p2p_trace \<and> p2p_done drv_p2p dev1 dev0 p2p_trace"
    by auto
  with e show ?thesis by (simp add: drv_p2p_def drv_ok_def)
qed

section \<open>Shutdown and leak detection\<close>

lemma keeps_variables_refl [simp]: "keeps_variables s s"
  by (simp add: keeps_variables_def)

lemma keeps_variables_trans:
  "keeps_variables s s1 \<Longrightarrow> keeps_variables s1 s2 \<Longrightarrow> keeps_variables s s2"
  by (auto simp: keeps_variables_def)

lemma keeps_variables_emit: "\<not> is_leak_line e \<Longrightarrow> keeps_variables s (emit e s)"
  by (simp add: keeps_variables_def emit_def)

lemma keeps_variables_and_then:
  assumes "keeps_variables s (outcome_state r)"
      and "\<And>s1. r = Inr s1 \<Longrightarrow> keeps_variables s1 (outcome_state (f s1))"
  shows "keeps_variables s (outcome_state (and_then r f))"
proof (cases r)
  case (Inl x)
  with assms(1) show ?thesis by simp
next
  case (Inr s1)
  with assms show ?thesis by (auto intro: keeps_variables_trans)
qed

lemma keeps_variables_cu_checked: "keeps_variables s (outcome_state (cu_checked drv c k s))"
  by (simp add: cu_checked_def cu_def cuda_check_def keeps_variables_emit)

lemma keeps_variables_delete_ts: "keeps_variables s (delete_ts a s)"
  by (simp add: keeps_variables_def delete_ts_def emit_def)

lemma active_mask_not_leak_line:
  "\<not> is_leak_line (Log Warn ''jit_shutdown(): leaked %zu active masks!'' as)"
  by (simp add: msg_leak_header_def msg_leak_variable_def msg_leak_skip_def msg_leak_summary_def)

lemma keeps_variables_release_thread_states:
  "keeps_variables s (outcome_state (release_thread_states drv as s))"
proof (induction as arbitrary: s)
  case Nil
  show ?case by simp
next
  case (Cons a as)
  let ?s0 = "emit (Call ''jit_free_flush'' [int a]) s"
  have k0: "keeps_variables s ?s0" by (simp add: keeps_variables_emit)
  show ?case
  proof (cases "heap s a")
    case None
    with k0 show ?thesis by (simp add: Let_def)
  next
    case (Some ts)
    let ?r = "if cuda ts then
             and_then (cu_checked drv (Some (ts_context ts)) (CuStreamSynchronize (stream ts)) ?s0) (\<lambda>s1.
             and_then (cu_checked drv (Some (ts_context ts)) (CuEventDestroy (event ts)) s1) (\<lambda>s2.
             cu_checked drv (Some (ts_context ts)) (CuStreamDestroy (stream ts)) s2))
           else
             (let s1 = task_wait_and_release (task ts) ?s0
              in Inr (if active_mask ts \<noteq> []
                      then jit_log Warn ''jit_shutdown(): leaked %zu active masks!''
                             [Z (length (active_mask ts))] s1
                      else s1))"
    have kr: "keeps_variables ?s0 (outcome_state ?r)"
    proof (cases "cuda ts")
      case True
      then show ?thesis
        by (simp, intro keeps_variables_and_then keeps_variables_cu_checked)
    next
      case False
      have "keeps_variables ?s0 (task_wait_and_release (task ts) ?s0)"
        by (simp add: task_wait_and_release_def keeps_variables_emit)
      moreover have "keeps_variables (task_wait_and_release (task ts) ?s0)
          (jit_log Warn ''jit_shutdown(): leaked %zu active masks!''
             [Z (length (active_mask ts))] (task_wait_and_release (task ts) ?s0))"
        unfolding jit_log_def by (rule keeps_variables_emit[OF active_mask_not_leak_line])
      ultimately show ?thesis using False
        by (auto simp: Let_def intro: keeps_variables_trans)
    qed
    have kd: "keeps_variables s3 (outcome_state (release_thread_states drv as
                   (delete_ts a (emit (DeleteChain (release_chain ts)) s3))))" for s3
      by (rule keeps_variables_trans[OF _ Cons.IH])
         (simp add: keeps_variables_def delete_ts_def emit_def)
    have eq: "release_thread_states drv (a # as) s
                = and_then ?r (\<lambda>s3. release_thread_states drv as
                   (delete_ts a (emit (DeleteChain (release_chain ts)) s3)))"
      using Some by (simp only: release_thread_states.simps Let_def emit_fields option.case)
    have "keeps_variables ?s0 (outcome_state (and_then ?r (\<lambda>s3. release_thread_states drv as
                   (delete_ts a (emit (DeleteChain (release_chain ts)) s3)))))"
      by (rule keeps_variables_and_then[OF kr kd])
    then show ?thesis
      unfolding eq by (rule keeps_variables_trans[OF k0])
  qed
qed

lemma keeps_variables_shutdown_thread_states:
  "keeps_variables s (outcome_state (shutdown_thread_states drv s))"
proof (cases "tss s = []")
  case True
  then show ?thesis by (simp add: shutdown_thread_states_def)
next
  case False
  let ?s0 = "jit_log Info ''jit_shutdown(): releasing %zu thread state%s ..''
               [Z (length (tss s)), S (if length (tss s) > 1 then ''s'' else [])] s"
  have k0: "keeps_variables s ?s0"
    unfolding jit_log_def by (rule keeps_variables_emit) simp
  have k1: "keeps_variables ?s0 (outcome_state (and_then (release_thread_states drv (tss s) ?s0)
              (\<lambda>s1. Inr ((emit (Call ''pool_destroy'' []) s1)\<lparr>tss := []\<rparr>))))"
    by (rule keeps_variables_and_then[OF keeps_variables_release_thread_states])
       (simp add: keeps_variables_def emit_def)
  from False keeps_variables_trans[OF k0 k1] show ?thesis
    by (simp add: shutdown_thread_states_def)
qed

lemma keeps_variables_release_kernels: "keeps_variables s (release_kernels ks s)"
proof (induction ks arbitrary: s)
  case Nil
  show ?case by simp
next
  case (Cons k ks)
  obtain str dev kn where k: "k = ((str, dev), kn)" by (metis surj_pair)
  have "keeps_variables s (emit (Call ''free'' [int str]) (emit (Call ''jit_kernel_free'' [dev, int kn]) s))"
    by (simp add: keeps_variables_def emit_def)
  with Cons.IH show ?case
    unfolding k release_kernels.simps by (rule keeps_variables_trans[rotated])
qed

lemma keeps_variables_shutdown_kernel_cache: "keeps_variables s (shutdown_kernel_cache s)"
proof (cases "kernel_cache s = []")
  case True
  then show ?thesis by (simp add: shutdown_kernel_cache_def)
next
  case False
  let ?s0 = "jit_log Info ''jit_shutdown(): releasing %zu kernel%s ..''
             [Z (length (kernel_cache s)), S (if length (kernel_cache s) > 1 then ''s'' else [])] s"
  have k0: "keeps_variables s ?s0"
    unfolding jit_log_def by (rule keeps_variables_emit) simp
  have "keeps_variables s (release_kernels (kernel_cache s) ?s0)"
    by (rule keeps_variables_trans[OF k0 keeps_variables_release_kernels])
  then have "keeps_variables s ((release_kernels (kernel_cache s) ?s0)\<lparr>kernel_cache := []\<rparr>)"
    by (simp add: keeps_variables_def)
  with False show ?thesis by (simp add: shutdown_kernel_cache_def)
qed

lemma keeps_variables_destroy_sub_streams:
  "keeps_variables s (outcome_state (destroy_sub_streams drv c r s))"
proof (induction r arbitrary: s)
  case Nil
  show ?case by simp
next
  case (Cons x r)
  obtain ev st where x: "x = (ev, st)" by (cases x)
  show ?case
    unfolding x destroy_sub_streams.simps
    by (intro keeps_variables_and_then keeps_variables_cu_checked Cons.IH)
qed

lemma keeps_variables_release_devices:
  "keeps_variables s (outcome_state (release_devices drv vs s))"
proof (induction vs arbitrary: s)
  case Nil
  show ?case by simp
next
  case (Cons v vs)
  show ?case
    unfolding release_devices.simps
    by (intro keeps_variables_and_then keeps_variables_cu_checked
          keeps_variables_destroy_sub_streams Cons.IH)
qed

lemma keeps_variables_shutdown_finish:
  "keeps_variables s (outcome_state (shutdown_finish drv light s))"
proof -
  let ?s6 = "emit (Call ''jit_malloc_shutdown'' []) (emit (Call ''jit_registry_shutdown'' []) s)"
  let ?r = "if has_cuda ?s6
           then and_then (release_devices drv (devices ?s6) ?s6) (\<lambda>s7. Inr (s7\<lparr>devices := []\<rparr>))
           else Inr ?s6"
  let ?f = "\<lambda>s8.
            (let s9 = jit_log Info ''jit_shutdown(): done'' [] s8;
                 s10 = (if light = 0
                        then emit (Call ''jit_cuda_shutdown'' [])
                               (emit (Call ''jit_llvm_shutdown'' []) s9)
                        else s9)
             in Inr (s10\<lparr>jit_temp_path := None, has_cuda := False, has_llvm := False\<rparr>))"
  have k6: "keeps_variables s ?s6" by (simp add: keeps_variables_def emit_def)
  have kr: "keeps_variables ?s6 (outcome_state ?r)"
  proof (cases "has_cuda ?s6")
    case True
    have "keeps_variables ?s6 (outcome_state (and_then (release_devices drv (devices ?s6) ?s6)
              (\<lambda>s7. Inr (s7\<lparr>devices := []\<rparr>))))"
      by (rule keeps_variables_and_then[OF keeps_variables_release_devices])
         (simp add: keeps_variables_def)
    with True show ?thesis by (simp only: if_True)
  next
    case False
    then show ?thesis by (simp only: if_False outcome_state_simps keeps_variables_refl)
  qed
  have kf: "keeps_variables s8 (outcome_state (?f s8))" for s8
    by (simp add: keeps_variables_def Let_def jit_log_def emit_def
          msg_leak_header_def msg_leak_variable_def msg_leak_skip_def msg_leak_summary_def)
  have "keeps_variables ?s6 (outcome_state (and_then ?r ?f))"
    by (rule keeps_variables_and_then[OF kr kf])
  then have "keeps_variables s (outcome_state (and_then ?r ?f))"
    by (rule keeps_variables_trans[OF k6])
  then show ?thesis
    by (simp only: shutdown_finish_def Let_def)
qed

lemma log_cse_entries_eq:
  "log_cse_entries kvs s = s\<lparr>trace := trace s @ map cse_line kvs\<rparr>"
proof (induction kvs arbitrary: s)
  case Nil
  show ?case by simp
next
  case (Cons kv kvs)
  obtain d0 d1 d2 d3 i where kv: "kv = ((d0, d1, d2, d3), i)" by (metis surj_pair)
  show ?case
    unfolding kv by (simp add: Cons.IH jit_log_def emit_def cse_line_def)
qed

lemma cse_line_not_leak: "\<not> is_leak_line (cse_line kv)"
  by (cases kv)
     (auto simp: cse_line_def msg_leak_header_def msg_leak_variable_def msg_leak_skip_def
        msg_leak_summary_def)

lemma filter_cse_lines: "filter is_leak_line (map cse_line kvs) = []"
  by (induction kvs) (simp_all add: cse_line_not_leak)

lemma keeps_variables_shutdown_checks:
  "keeps_variables s (outcome_state (shutdown_checks s))"
  by (simp add: shutdown_checks_def jit_fail_def log_cse_entries_eq keeps_variables_def
        filter_cse_lines)

lemma report_leaks_eq:
  "report_leaks n vs s = (n + length vs, s\<lparr>trace := trace s @ report_lines n vs\<rparr>)"
proof (induction vs arbitrary: n s)
  case Nil
  show ?case by (simp add: report_lines_def)
next
  case (Cons kv vs)
  obtain i v where kv: "kv = (i, v)" by (cases kv)
  consider "n = 0" | "0 < n" "n < 10" | "n = 10" | "10 < n" by linarith
  then show ?case
  proof cases
    case 1
    then show ?thesis
      unfolding kv
      by (simp add: Cons.IH Let_def jit_log_def emit_def report_lines_def leak_line_def)
  next
    case 2
    then have e: "10 - n = Suc (10 - Suc n)" by simp
    have "take (10 - n) ((i, v) # vs) = (i, v) # take (10 - Suc n) vs"
      by (subst e) simp
    with 2 show ?thesis
      unfolding kv
      by (simp add: Cons.IH Let_def jit_log_def emit_def report_lines_def leak_line_def)
  next
    case 3
    then show ?thesis
      unfolding kv
      by (simp add: Cons.IH Let_def jit_log_def emit_def report_lines_def leak_line_def)
  next
    case 4
    then show ?thesis
      unfolding kv
      by (simp add: Cons.IH Let_def jit_log_def emit_def report_lines_def leak_line_def)
  qed
qed

lemma fold_dec_ref_ext:
  "fold jit_var_dec_ref_ext ids s =
     (case fold var_dec_ref_ext ids (variables s, cse_cache s) of
        (vs, cs) \<Rightarrow> s\<lparr>variables := vs, cse_cache := cs\<rparr>)"
proof (induction ids arbitrary: s)
  case Nil
  show ?case by simp
next
  case (Cons i ids)
  obtain vs1 cs1 where st: "var_dec_ref_ext i (variables s, cse_cache s) = (vs1, cs1)"
    by (cases "var_dec_ref_ext i (variables s, cse_cache s)")
  have step: "jit_var_dec_ref_ext i s = s\<lparr>variables := vs1, cse_cache := cs1\<rparr>"
    by (simp add: jit_var_dec_ref_ext_def st)
  show ?case
    by (simp add: Cons.IH step st split: prod.splits)
qed

lemma report_lines_0: "report_lines 0 vs @ (if vs = [] then [] else [Log Warn msg_leak_summary [U (length vs)]])
     = leak_report vs"
  by (simp add: report_lines_def leak_report_def)

lemma shutdown_leak_pass_warn:
  assumes "level_rank Warn \<le> max (level_rank (log_level_stderr s)) (level_rank (log_level_callback s))"
      and "fold var_dec_ref_ext (leaked_scatters (variables s)) (variables s, cse_cache s) = (vs, cs)"
  shows "shutdown_leak_pass s =
           s\<lparr>variables := vs, cse_cache := cs,
             trace := trace s @ leak_report vs
               @ (if vs = [] \<and> extra s \<noteq> [] then [Log Warn msg_empty_records [Z (length (extra s))]] else [])\<rparr>"
proof -
  have "report_lines 0 vs @ (if vs = [] then [] else [Log Warn msg_leak_summary [U (length vs)]])
          = leak_report vs"
    by (rule report_lines_0)
  then show ?thesis
    using assms
    by (cases "vs = []")
       (auto simp: shutdown_leak_pass_def fold_dec_ref_ext report_leaks_eq Let_def jit_log_def
          emit_def msg_empty_records_def)
qed

lemma filter_leak_report: "filter is_leak_line (leak_report vs) = leak_report vs"
  by (simp add: leak_report_def leak_line_def)

lemma shutdown_leak_pass_runs:
  assumes "level_rank Warn \<le> max (level_rank (log_level_stderr s)) (level_rank (log_level_callback s))"
      and "shutdown_thread_states drv s = Inr s1"
  shows "(variables (outcome_state (jit_shutdown drv light s)),
          cse_cache (outcome_state (jit_shutdown drv light s)))
           = fold var_dec_ref_ext (leaked_scatters (variables s)) (variables s, cse_cache s)
       \<and> filter is_leak_line (new_trace s (outcome_state (jit_shutdown drv light s)))
           = leak_report (variables (outcome_state (jit_shutdown drv light s)))"
proof -
  let ?s2 = "s1\<lparr>thread_state_llvm := None, thread_state_cuda := None\<rparr>"
  let ?s3 = "shutdown_kernel_cache ?s2"
  let ?s4 = "shutdown_leak_pass ?s3"
  let ?r = "and_then (shutdown_checks ?s4) (shutdown_finish drv light)"
  have js: "jit_shutdown drv light s = ?r"
    by (simp only: jit_shutdown_def assms(2) and_then_Inr Let_def)
  have k1: "keeps_variables s s1"
    using keeps_variables_shutdown_thread_states[of s drv] assms(2) by simp
  have k2: "keeps_variables s1 ?s2" by (simp add: keeps_variables_def)
  have k3: "keeps_variables s ?s3"
    by (blast intro: keeps_variables_trans k1 k2 keeps_variables_shutdown_kernel_cache)
  obtain vs cs where f:
    "fold var_dec_ref_ext (leaked_scatters (variables s)) (variables s, cse_cache s) = (vs, cs)"
    by (cases "fold var_dec_ref_ext (leaked_scatters (variables s)) (variables s, cse_cache s)")
  from k3 have eqs: "variables ?s3 = variables s" "cse_cache ?s3 = cse_cache s"
      "log_level_stderr ?s3 = log_level_stderr s" "log_level_callback ?s3 = log_level_callback s"
    and "\<exists>pre. trace ?s3 = trace s @ pre \<and> filter is_leak_line pre = []"
    unfolding keeps_variables_def by blast+
  then obtain pre where pre: "trace ?s3 = trace s @ pre" "filter is_leak_line pre = []" by blast
  let ?tail = "if vs = [] \<and> extra ?s3 \<noteq> [] then [Log Warn msg_empty_records [Z (length (extra ?s3))]] else []"
  have s4: "?s4 = ?s3\<lparr>variables := vs, cse_cache := cs, trace := trace ?s3 @ leak_report vs @ ?tail\<rparr>"
    by (rule shutdown_leak_pass_warn) (simp_all only: eqs assms(1) f)
  have k4: "keeps_variables ?s4 (outcome_state ?r)"
    by (intro keeps_variables_and_then keeps_variables_shutdown_checks keeps_variables_shutdown_finish)
  then obtain post where post: "trace (outcome_state ?r) = trace ?s4 @ post" "filter is_leak_line post = []"
    and v: "variables (outcome_state ?r) = variables ?s4" "cse_cache (outcome_state ?r) = cse_cache ?s4"
    unfolding keeps_variables_def by blast
  have v4: "variables ?s4 = vs" "cse_cache ?s4 = cs"
    and t4: "trace ?s4 = trace s @ pre @ leak_report vs @ ?tail"
    by (simp_all add: s4 pre(1))
  have tl: "filter is_leak_line ?tail = []"
    by (simp add: msg_empty_records_def msg_leak_header_def msg_leak_variable_def
          msg_leak_skip_def msg_leak_summary_def)
  have "new_trace s (outcome_state ?r) = pre @ leak_report vs @ ?tail @ post"
    by (simp add: new_trace_def post(1) t4)
  then have "filter is_leak_line (new_trace s (outcome_state ?r)) = leak_report vs"
    by (simp only: filter_append pre(2) post(2) tl filter_leak_report append_Nil append_Nil2)
  with v v4 f show ?thesis by (simp only: js)
qed

lemma shutdown_leak_pass_skipped:
  assumes "max (level_rank (log_level_stderr s)) (level_rank (log_level_callback s)) < level_rank Warn"
  shows "keeps_variables s (outcome_state (jit_shutdown drv light s))"
proof (cases "shutdown_thread_states drv s")
  case (Inl x)
  with keeps_variables_shutdown_thread_states[of s drv] show ?thesis
    by (simp add: jit_shutdown_def)
next
  case (Inr s1)
  let ?s2 = "s1\<lparr>thread_state_llvm := None, thread_state_cuda := None\<rparr>"
  let ?s3 = "shutdown_kernel_cache ?s2"
  let ?r = "and_then (shutdown_checks ?s3) (shutdown_finish drv light)"
  have k1: "keeps_variables s s1"
    using keeps_variables_shutdown_thread_states[of s drv] Inr by simp
  have k2: "keeps_variables s1 ?s2" by (simp add: keeps_variables_def)
  have k3: "keeps_variables s ?s3"
    by (blast intro: keeps_variables_trans k1 k2 keeps_variables_shutdown_kernel_cache)
  then have "log_level_stderr ?s3 = log_level_stderr s" "log_level_callback ?s3 = log_level_callback s"
    unfolding keeps_variables_def by blast+
  with assms have "\<not> level_rank Warn \<le> max (level_rank (log_level_stderr ?s3))
                                             (level_rank (log_level_callback ?s3))"
    by (simp only: not_le)
  then have skip: "shutdown_leak_pass ?s3 = ?s3"
    by (simp only: shutdown_leak_pass_def if_False)
  have js: "jit_shutdown drv light s = ?r"
    by (simp only: jit_shutdown_def Inr and_then_Inr Let_def skip)
  have "keeps_variables ?s3 (outcome_state ?r)"
    by (intro keeps_variables_and_then keeps_variables_shutdown_checks keeps_variables_shutdown_finish)
  with k3 show ?thesis
    unfolding js by (rule keeps_variables_trans)
qed


text \<open>A Variable that has one external reference and no internal one leaves the map when
  that reference is decremented, and is untouched by the decrements of the others.\<close>

lemma map_of_filter_key:
  "map_of (filter (\<lambda>kv. fst kv \<noteq> j) xs) i = (if i = j then None else map_of xs i)"
  by (induction xs) auto

lemma map_of_remove_variable:
  "map_of (fst (remove_variable j st)) i = (if i = j then None else map_of (fst st) i)"
  by (simp add: remove_variable_def map_of_filter_key)

lemma map_of_map_key:
  "map_of (map (\<lambda>kv. if fst kv = j then (j, v) else kv) xs) i
     = (if i = j then map_option (\<lambda>u. v) (map_of xs j) else map_of xs i)"
  by (induction xs) auto

lemma map_of_store_variable:
  "map_of (fst (store_variable j v st)) i
     = (if i = j then map_option (\<lambda>u. v) (map_of (fst st) j) else map_of (fst st) i)"
  by (simp add: store_variable_def map_of_map_key)

lemma collect_deps_collect:
  "map_of (fst st) j = Some u \<Longrightarrow> ref_count_int u - 1 = 0 \<and> ref_count_ext u = 0 \<Longrightarrow>
     collect_deps (j # w) st
       = collect_deps (filter (\<lambda>d. d \<noteq> 0) (dep u) @ w) (remove_variable j st)"
  by (subst collect_deps.simps) (simp only: option.case if_True if_P simp_thms)

lemma collect_deps_keep:
  "map_of (fst st) j = Some u \<Longrightarrow> \<not> (ref_count_int u - 1 = 0 \<and> ref_count_ext u = 0) \<Longrightarrow>
     collect_deps (j # w) st
       = collect_deps w (store_variable j (u\<lparr>ref_count_int := ref_count_int u - 1\<rparr>) st)"
  by (subst collect_deps.simps) (simp only: option.case if_False if_not_P simp_thms)

lemma collect_deps_skip:
  "map_of (fst st) j = None \<Longrightarrow> collect_deps (j # w) st = collect_deps w st"
  by (subst collect_deps.simps) (simp only: option.case)

lemma var_dec_ref_ext_collect:
  "map_of (fst st) j = Some u \<Longrightarrow> ref_count_int u = 0 \<and> ref_count_ext u - 1 = 0 \<Longrightarrow>
     var_dec_ref_ext j st = collect_deps (filter (\<lambda>d. d \<noteq> 0) (dep u)) (remove_variable j st)"
  unfolding var_dec_ref_ext_def by (simp only: option.case if_True if_P simp_thms)

lemma var_dec_ref_ext_keep:
  "map_of (fst st) j = Some u \<Longrightarrow> \<not> (ref_count_int u = 0 \<and> ref_count_ext u - 1 = 0) \<Longrightarrow>
     var_dec_ref_ext j st = store_variable j (u\<lparr>ref_count_ext := ref_count_ext u - 1\<rparr>) st"
  unfolding var_dec_ref_ext_def by (simp only: option.case if_False if_not_P simp_thms)

lemma var_dec_ref_ext_skip:
  "map_of (fst st) j = None \<Longrightarrow> var_dec_ref_ext j st = st"
  unfolding var_dec_ref_ext_def by (simp only: option.case)

lemma collect_deps_absent:
  "map_of (fst st) i = None \<Longrightarrow> map_of (fst (collect_deps w st)) i = None"
proof (induction w st rule: collect_deps.induct)
  case (1 st)
  then show ?case by simp
next
  case (2 j w st)
  show ?case
  proof (cases "map_of (fst st) j")
    case None
    from "2.IH"(1)[OF None "2.prems"] show ?thesis
      by (simp only: collect_deps_skip[OF None])
  next
    case (Some u)
    show ?thesis
    proof (cases "ref_count_int u - 1 = 0 \<and> ref_count_ext u = 0")
      case True
      from "2.prems" have "map_of (fst (remove_variable j st)) i = None"
        by (simp add: map_of_remove_variable)
      from "2.IH"(2)[OF Some True this] show ?thesis
        by (simp only: collect_deps_collect[OF Some True])
    next
      case False
      from "2.prems" Some
      have "map_of (fst (store_variable j (u\<lparr>ref_count_int := ref_count_int u - 1\<rparr>) st)) i = None"
        by (auto simp: map_of_store_variable)
      from "2.IH"(3)[OF Some False this] show ?thesis
        by (simp only: collect_deps_keep[OF Some False])
    qed
  qed
qed

lemma dec_int_sole_external:
  "ref_count_int v = 0 \<Longrightarrow> v\<lparr>ref_count_int := ref_count_int v - 1\<rparr> = v"
  by (cases v) simp

lemma collect_deps_sole_external:
  "map_of (fst st) i = Some v \<Longrightarrow> ref_count_ext v = 1 \<Longrightarrow> ref_count_int v = 0 \<Longrightarrow>
     map_of (fst (collect_deps w st)) i = Some v"
proof (induction w st rule: collect_deps.induct)
  case (1 st)
  then show ?case by simp
next
  case (2 j w st)
  show ?case
  proof (cases "map_of (fst st) j")
    case None
    from "2.IH"(1)[OF None "2.prems"] show ?thesis
      by (simp only: collect_deps_skip[OF None])
  next
    case (Some u)
    show ?thesis
    proof (cases "ref_count_int u - 1 = 0 \<and> ref_count_ext u = 0")
      case True
      with Some "2.prems" have "i \<noteq> j" by auto
      with "2.prems" have "map_of (fst (remove_variable j st)) i = Some v"
        by (simp add: map_of_remove_variable)
      from "2.IH"(2)[OF Some True this "2.prems"(2,3)] show ?thesis
        by (simp only: collect_deps_collect[OF Some True])
    next
      case False
      have "map_of (fst (store_variable j (u\<lparr>ref_count_int := ref_count_int u - 1\<rparr>) st)) i = Some v"
      proof (cases "i = j")
        case True
        with Some "2.prems" have uv: "u = v" by simp
        from "2.prems"(3) have "v\<lparr>ref_count_int := ref_count_int v - 1\<rparr> = v"
          by (rule dec_int_sole_external)
        with uv True Some show ?thesis by (simp add: map_of_store_variable)
      next
        case False
        with "2.prems" show ?thesis by (simp add: map_of_store_variable)
      qed
      from "2.IH"(3)[OF Some False this "2.prems"(2,3)] show ?thesis
        by (simp only: collect_deps_keep[OF Some False])
    qed
  qed
qed

lemma var_dec_ref_ext_absent:
  assumes a: "map_of (fst st) i = None"
  shows "map_of (fst (var_dec_ref_ext j st)) i = None"
proof (cases "map_of (fst st) j")
  case None
  with a show ?thesis by (simp only: var_dec_ref_ext_skip)
next
  case (Some u)
  show ?thesis
  proof (cases "ref_count_int u = 0 \<and> ref_count_ext u - 1 = 0")
    case True
    from a have "map_of (fst (remove_variable j st)) i = None"
      by (simp add: map_of_remove_variable)
    then have "map_of (fst (collect_deps (filter (\<lambda>d. d \<noteq> 0) (dep u)) (remove_variable j st))) i = None"
      by (rule collect_deps_absent)
    then show ?thesis by (simp only: var_dec_ref_ext_collect[OF Some True])
  next
    case False
    from a Some
    have "map_of (fst (store_variable j (u\<lparr>ref_count_ext := ref_count_ext u - 1\<rparr>) st)) i = None"
      by (auto simp: map_of_store_variable)
    then show ?thesis by (simp only: var_dec_ref_ext_keep[OF Some False])
  qed
qed

lemma var_dec_ref_ext_collects:
  assumes "map_of (fst st) i = Some v" and "ref_count_ext v = 1" and "ref_count_int v = 0"
  shows "map_of (fst (var_dec_ref_ext i st)) i = None"
proof -
  from assms(2,3) have c: "ref_count_int v = 0 \<and> ref_count_ext v - 1 = 0" by simp
  have "map_of (fst (remove_variable i st)) i = None"
    by (simp add: map_of_remove_variable)
  then have "map_of (fst (collect_deps (filter (\<lambda>d. d \<noteq> 0) (dep v)) (remove_variable i st))) i = None"
    by (rule collect_deps_absent)
  then show ?thesis by (simp only: var_dec_ref_ext_collect[OF assms(1) c])
qed

lemma var_dec_ref_ext_other:
  assumes "map_of (fst st) i = Some v" and "ref_count_ext v = 1" and "ref_count_int v = 0"
      and "i \<noteq> j"
  shows "map_of (fst (var_dec_ref_ext j st)) i = Some v"
proof (cases "map_of (fst st) j")
  case None
  with assms(1) show ?thesis by (simp only: var_dec_ref_ext_skip)
next
  case (Some u)
  show ?thesis
  proof (cases "ref_count_int u = 0 \<and> ref_count_ext u - 1 = 0")
    case True
    from assms(1,4) have "map_of (fst (remove_variable j st)) i = Some v"
      by (simp add: map_of_remove_variable)
    then have "map_of (fst (collect_deps (filter (\<lambda>d. d \<noteq> 0) (dep u)) (remove_variable j st))) i = Some v"
      using assms(2,3) by (rule collect_deps_sole_external)
    then show ?thesis by (simp only: var_dec_ref_ext_collect[OF Some True])
  next
    case False
    from assms(1,4)
    have "map_of (fst (store_variable j (u\<lparr>ref_count_ext := ref_count_ext u - 1\<rparr>) st)) i = Some v"
      by (simp add: map_of_store_variable)
    then show ?thesis by (simp only: var_dec_ref_ext_keep[OF Some False])
  qed
qed

lemma fold_dec_ref_ext_absent:
  "map_of (fst st) i = None \<Longrightarrow> map_of (fst (fold var_dec_ref_ext ids st)) i = None"
  by (induction ids arbitrary: st) (simp_all add: var_dec_ref_ext_absent)

lemma fold_dec_ref_ext_collects:
  "i \<in> set ids \<Longrightarrow> map_of (fst st) i = Some v \<Longrightarrow> ref_count_ext v = 1 \<Longrightarrow>
     ref_count_int v = 0 \<Longrightarrow> map_of (fst (fold var_dec_ref_ext ids st)) i = None"
proof (induction ids arbitrary: st)
  case Nil
  then show ?case by simp
next
  case (Cons j ids)
  show ?case
  proof (cases "i = j")
    case True
    from Cons.prems(2-4) have "map_of (fst (var_dec_ref_ext i st)) i = None"
      by (rule var_dec_ref_ext_collects)
    then have "map_of (fst (fold var_dec_ref_ext ids (var_dec_ref_ext i st))) i = None"
      by (rule fold_dec_ref_ext_absent)
    with True show ?thesis by simp
  next
    case False
    with Cons.prems have m: "map_of (fst (var_dec_ref_ext j st)) i = Some v" and i: "i \<in> set ids"
      by (simp_all add: var_dec_ref_ext_other)
    from Cons.IH[OF i m Cons.prems(3,4)] show ?thesis by simp
  qed
qed

lemma leaked_scatters_collected:
  assumes "map_of vs i = Some v" and "scatter v"
      and "ref_count_ext v = 1" and "ref_count_int v = 0"
  shows "map_of (fst (fold var_dec_ref_ext
            (map fst (filter (\<lambda>kv. scatter (snd kv) \<and> ref_count_ext (snd kv) = 1
                                    \<and> ref_count_int (snd kv) = 0) vs)) (vs, cs))) i = None"
proof -
  from assms(1) have "(i, v) \<in> set vs" by (rule map_of_SomeD)
  with assms(2-4) have "i \<in> set (map fst (filter (\<lambda>kv. scatter (snd kv) \<and> ref_count_ext (snd kv) = 1
                                    \<and> ref_count_int (snd kv) = 0) vs))"
    by force
  from fold_dec_ref_ext_collects[OF this, of "(vs, cs)" v] assms(1,3,4) show ?thesis
    by simp
qed

text \<open>
  Claim C2, amended. On every shutdown in which the higher of the two log levels is at
  least \<open>Warn\<close> and the release of the thread states has not ended the run, the leak pass
  runs. First the external reference is decremented (\<open>var_dec_ref_ext\<close>) of exactly the
  Variables that have the scatter flag, one external reference and no internal
  reference, in iteration order; each of them has left the map when the shutdown ends.
  Then every Variable still in the map is reported, with
  at most 10 individual lines, one notice that the remainder is skipped when there are
  more, and a last line with the total number. These are all the leak lines of the
  shutdown, whether it goes on to return or to fail. On a shutdown with both log levels
  below \<open>Warn\<close> the pass is skipped: the map of Variables and the CSE cache end as they
  were, and no leak line is logged.
\<close>

theorem shutdown_leak_pass_reports:
  "(level_rank Warn \<le> max (level_rank (log_level_stderr s)) (level_rank (log_level_callback s))
      \<and> (\<exists>s1. shutdown_thread_states drv s = Inr s1) \<longrightarrow>
        (variables (outcome_state (jit_shutdown drv light s)),
         cse_cache (outcome_state (jit_shutdown drv light s)))
          = fold var_dec_ref_ext
              (map fst (filter (\<lambda>kv. scatter (snd kv) \<and> ref_count_ext (snd kv) = 1
                                      \<and> ref_count_int (snd kv) = 0) (variables s)))
              (variables s, cse_cache s)
        \<and> (\<forall>i v. map_of (variables s) i = Some v \<and> scatter v
                   \<and> ref_count_ext v = 1 \<and> ref_count_int v = 0 \<longrightarrow>
                 map_of (variables (outcome_state (jit_shutdown drv light s))) i = None)
        \<and> filter is_leak_line (new_trace s (outcome_state (jit_shutdown drv light s)))
            = leak_report (variables (outcome_state (jit_shutdown drv light s))))
   \<and> (max (level_rank (log_level_stderr s)) (level_rank (log_level_callback s)) < level_rank Warn \<longrightarrow>
        variables (outcome_state (jit_shutdown drv light s)) = variables s
        \<and> cse_cache (outcome_state (jit_shutdown drv light s)) = cse_cache s
        \<and> filter is_leak_line (new_trace s (outcome_state (jit_shutdown drv light s))) = [])"
proof (intro conjI impI allI)
  assume a: "level_rank Warn \<le> max (level_rank (log_level_stderr s)) (level_rank (log_level_callback s))
      \<and> (\<exists>s1. shutdown_thread_states drv s = Inr s1)"
  then obtain s1 where s1: "shutdown_thread_states drv s = Inr s1" by blast
  from a have w: "level_rank Warn \<le> max (level_rank (log_level_stderr s)) (level_rank (log_level_callback s))"
    by blast
  note r = shutdown_leak_pass_runs[OF w s1, of light, unfolded leaked_scatters_def]
  from r show "(variables (outcome_state (jit_shutdown drv light s)),
         cse_cache (outcome_state (jit_shutdown drv light s)))
          = fold var_dec_ref_ext
              (map fst (filter (\<lambda>kv. scatter (snd kv) \<and> ref_count_ext (snd kv) = 1
                                      \<and> ref_count_int (snd kv) = 0) (variables s)))
              (variables s, cse_cache s)"
    by (rule conjunct1)
  from r show "filter is_leak_line (new_trace s (outcome_state (jit_shutdown drv light s)))
            = leak_report (variables (outcome_state (jit_shutdown drv light s)))"
    by (rule conjunct2)
  fix i v
  assume sole: "map_of (variables s) i = Some v \<and> scatter v
                   \<and> ref_count_ext v = 1 \<and> ref_count_int v = 0"
  from r have "variables (outcome_state (jit_shutdown drv light s))
      = fst (fold var_dec_ref_ext
              (map fst (filter (\<lambda>kv. scatter (snd kv) \<and> ref_count_ext (snd kv) = 1
                                      \<and> ref_count_int (snd kv) = 0) (variables s)))
              (variables s, cse_cache s))"
    by (metis fst_conv)
  moreover from sole have "map_of (fst (fold var_dec_ref_ext
              (map fst (filter (\<lambda>kv. scatter (snd kv) \<and> ref_count_ext (snd kv) = 1
                                      \<and> ref_count_int (snd kv) = 0) (variables s)))
              (variables s, cse_cache s))) i = None"
    by (intro leaked_scatters_collected[of _ _ v]) simp_all
  ultimately show "map_of (variables (outcome_state (jit_shutdown drv light s))) i = None"
    by simp
next
  assume "max (level_rank (log_level_stderr s)) (level_rank (log_level_callback s)) < level_rank Warn"
  then have k: "keeps_variables s (outcome_state (jit_shutdown drv light s))"
    by (rule shutdown_leak_pass_skipped)
  from k show "variables (outcome_state (jit_shutdown drv light s)) = variables s"
    by (simp add: keeps_variables_def)
  from k show "cse_cache (outcome_state (jit_shutdown drv light s)) = cse_cache s"
    by (simp add: keeps_variables_def)
  from k obtain es where "trace (outcome_state (jit_shutdown drv light s)) = trace s @ es"
      "filter is_leak_line es = []"
    unfolding keeps_variables_def by blast
  then show "filter is_leak_line (new_trace s (outcome_state (jit_shutdown drv light s))) = []"
    by (simp add: new_trace_def)
qed


lemmas shutdown_defs = jit_shutdown_def shutdown_thread_states_def shutdown_kernel_cache_def
  shutdown_leak_pass_def shutdown_checks_def shutdown_finish_def leaked_scatters_def
  jit_var_dec_ref_ext_def var_dec_ref_ext_def remove_variable_def store_variable_def
  jit_log_def jit_fail_def emit_def Let_def

lemmas leaky_defs = st_leaky_def state0_def var_scatter_def var_inner_def var_held_def
  var_scatter_shared_def var_scatter_used_def leaky_left_def leaky_report_def finish_trace_def

text \<open>
  Claim C2 as stated says the leak pass runs on every shutdown. With both log levels at
  \<open>Error\<close> it does not: Variable 1 is a scatter whose only reference is one external
  reference and Variables 3, 4 and 5 are still referenced, yet the shutdown returns with
  the map as it was and without a single leak line. Had the pass run, Variables 1 and 2
  would be gone and the other three reported.
\<close>

theorem shutdown_leak_pass_counterexample:
  "jit_shutdown drv_ok 0 (st_leaky Error) = Inr ((st_leaky Error)\<lparr>trace := finish_trace\<rparr>)
   \<and> variables (st_leaky Error)
       = [(1, var_scatter), (2, var_inner), (3, var_held), (4, var_scatter_shared),
          (5, var_scatter_used)]
   \<and> scatter var_scatter \<and> ref_count_ext var_scatter = 1 \<and> ref_count_int var_scatter = 0
   \<and> fold var_dec_ref_ext [1] (variables (st_leaky Error), cse_cache (st_leaky Error))
       = (leaky_left, [])
   \<and> filter is_leak_line finish_trace = []
   \<and> leak_report leaky_left = leaky_report"
  by (simp add: shutdown_defs leaky_defs leak_report_def leak_line_def)

text \<open>The amended C2 on the same Variables. With the log level at \<open>Warn\<close> the scatter and
  its dep are collected, the two scatters that have other references keep their counts,
  and the three Variables left are reported. With the log level at \<open>Error\<close> nothing
  changes and nothing is reported.\<close>

theorem shutdown_leak_pass_reports_witness:
  "jit_shutdown drv_ok 0 (st_leaky Warn)
     = Inr ((st_leaky Warn)\<lparr>variables := leaky_left, trace := leaky_report @ finish_trace\<rparr>)
   \<and> fold var_dec_ref_ext
       (map fst (filter (\<lambda>kv. scatter (snd kv) \<and> ref_count_ext (snd kv) = 1
                               \<and> ref_count_int (snd kv) = 0) (variables (st_leaky Warn))))
       (variables (st_leaky Warn), cse_cache (st_leaky Warn))
       = (leaky_left, [])
   \<and> map_of (variables (outcome_state (jit_shutdown drv_ok 0 (st_leaky Warn)))) 1 = None
   \<and> map_of leaky_left 4 = Some var_scatter_shared
   \<and> map_of leaky_left 5 = Some var_scatter_used
   \<and> filter is_leak_line (new_trace (st_leaky Warn) (outcome_state (jit_shutdown drv_ok 0 (st_leaky Warn))))
       = leaky_report
   \<and> variables (outcome_state (jit_shutdown drv_ok 0 (st_leaky Error))) = variables (st_leaky Error)
   \<and> filter is_leak_line (new_trace (st_leaky Error) (outcome_state (jit_shutdown drv_ok 0 (st_leaky Error))))
       = []"
proof -
  have w: "level_rank Warn \<le> max (level_rank (log_level_stderr (st_leaky Warn)))
                                   (level_rank (log_level_callback (st_leaky Warn)))"
    by (simp add: leaky_defs)
  have d: "\<exists>s1. shutdown_thread_states drv_ok (st_leaky Warn) = Inr s1"
    by (simp add: shutdown_thread_states_def leaky_defs)
  have b: "max (level_rank (log_level_stderr (st_leaky Error)))
               (level_rank (log_level_callback (st_leaky Error))) < level_rank Warn"
    by (simp add: leaky_defs)
  have e: "jit_shutdown drv_ok 0 (st_leaky Warn)
     = Inr ((st_leaky Warn)\<lparr>variables := leaky_left, trace := leaky_report @ finish_trace\<rparr>)"
    by (simp add: shutdown_defs leaky_defs)
  have r: "leak_report leaky_left = leaky_report"
    by (simp add: leaky_defs leak_report_def leak_line_def)
  from shutdown_leak_pass_reports[of "st_leaky Warn" drv_ok 0] w d
  have p: "(variables (outcome_state (jit_shutdown drv_ok 0 (st_leaky Warn))),
         cse_cache (outcome_state (jit_shutdown drv_ok 0 (st_leaky Warn))))
          = fold var_dec_ref_ext
              (map fst (filter (\<lambda>kv. scatter (snd kv) \<and> ref_count_ext (snd kv) = 1
                                      \<and> ref_count_int (snd kv) = 0) (variables (st_leaky Warn))))
              (variables (st_leaky Warn), cse_cache (st_leaky Warn))"
    and q: "filter is_leak_line (new_trace (st_leaky Warn) (outcome_state (jit_shutdown drv_ok 0 (st_leaky Warn))))
            = leak_report (variables (outcome_state (jit_shutdown drv_ok 0 (st_leaky Warn))))"
    and g: "\<forall>i v. map_of (variables (st_leaky Warn)) i = Some v \<and> scatter v
                   \<and> ref_count_ext v = 1 \<and> ref_count_int v = 0 \<longrightarrow>
                 map_of (variables (outcome_state (jit_shutdown drv_ok 0 (st_leaky Warn)))) i = None"
    by blast+
  have "map_of (variables (st_leaky Warn)) 1 = Some var_scatter \<and> scatter var_scatter
          \<and> ref_count_ext var_scatter = 1 \<and> ref_count_int var_scatter = 0"
    by (simp add: leaky_defs)
  with g have g': "map_of (variables (outcome_state (jit_shutdown drv_ok 0 (st_leaky Warn)))) 1 = None"
    by blast
  have k: "map_of leaky_left 4 = Some var_scatter_shared" "map_of leaky_left 5 = Some var_scatter_used"
    by (simp_all add: leaky_left_def)
  have v: "variables (outcome_state (jit_shutdown drv_ok 0 (st_leaky Warn))) = leaky_left"
      "cse_cache (outcome_state (jit_shutdown drv_ok 0 (st_leaky Warn))) = []"
    by (simp_all add: e) (simp add: leaky_defs)
  from shutdown_leak_pass_reports[of "st_leaky Error" drv_ok 0] b
  have n: "variables (outcome_state (jit_shutdown drv_ok 0 (st_leaky Error))) = variables (st_leaky Error)"
      "filter is_leak_line (new_trace (st_leaky Error) (outcome_state (jit_shutdown drv_ok 0 (st_leaky Error)))) = []"
    by blast+
  from p v have p': "fold var_dec_ref_ext
       (map fst (filter (\<lambda>kv. scatter (snd kv) \<and> ref_count_ext (snd kv) = 1
                               \<and> ref_count_int (snd kv) = 0) (variables (st_leaky Warn))))
       (variables (st_leaky Warn), cse_cache (st_leaky Warn))
       = (leaky_left, [])"
    by simp
  from q v r have q': "filter is_leak_line
       (new_trace (st_leaky Warn) (outcome_state (jit_shutdown drv_ok 0 (st_leaky Warn))))
       = leaky_report"
    by simp
  from e p' q' g' k n show ?thesis by blast
qed



section \<open>Finding a shared library\<close>

lemma scan_first_pass:
  "fst (snd (scan_candidates e True ps (c, ch, evs)))
     = (if filter (regular e) ps = [] then ch else Some (last (filter (regular e) ps)))"
  by (induction ps arbitrary: c ch evs) (auto simp: regular_def split: option.splits)

lemma scan_second_pass:
  "fst (snd (scan_candidates e False ps (c, ch, evs))) = (if ps = [] then ch else Some (last ps))"
  by (induction ps arbitrary: c ch evs) auto

lemma scan_no_loader_calls:
  "filter is_glob (snd (snd (scan_candidates e fp ps (c, ch, evs)))) = filter is_glob evs
   \<and> filter is_dlopen (snd (snd (scan_candidates e fp ps (c, ch, evs)))) = filter is_dlopen evs"
  by (induction ps arbitrary: c ch evs) (auto split: option.splits)

lemma choose_candidate_chosen:
  "fst (choose_candidate e ps)
     = (if filter (regular e) ps \<noteq> [] then Some (last (filter (regular e) ps))
        else if ps \<noteq> [] then Some (last ps) else None)"
proof -
  obtain c ch evs where s1: "scan_candidates e True ps (1, None, []) = (c, ch, evs)"
    by (metis prod_cases3)
  from scan_first_pass[of e ps 1 None "[]"] s1
  have ch: "ch = (if filter (regular e) ps = [] then None else Some (last (filter (regular e) ps)))"
    by simp
  show ?thesis
  proof (cases "filter (regular e) ps = []")
    case False
    with ch s1 show ?thesis by (simp add: choose_candidate_def)
  next
    case True
    with ch have n: "ch = None" by simp
    obtain c2 ch2 evs2 where s2: "scan_candidates e False ps (c, None, evs) = (c2, ch2, evs2)"
      by (metis prod_cases3)
    from scan_second_pass[of e ps c None evs] s2
    have "ch2 = (if ps = [] then None else Some (last ps))" by simp
    with True s1 s2 n show ?thesis by (simp add: choose_candidate_def)
  qed
qed

lemma scan_candidates_getenv:
  "scan_candidates (e\<lparr>getenv := g\<rparr>) fp ps acc = scan_candidates e fp ps acc"
proof (induction ps arbitrary: acc fp)
  case Nil
  show ?case by simp
next
  case (Cons p ps)
  obtain c ch evs where acc: "acc = (c, ch, evs)" by (metis prod_cases3)
  show ?case unfolding acc by (simp add: Cons.IH split: option.splits)
qed

lemma choose_candidate_getenv:
  "choose_candidate (e\<lparr>getenv := g\<rparr>) ps = choose_candidate e ps"
  by (simp add: choose_candidate_def scan_candidates_getenv split: prod.splits)

text \<open>
  With the variable unset and the plain name not loadable, more than one glob result:
  the handle is that of the last candidate of the sorted array that \<open>lstat\<close> does not
  report as a symbolic link, or of the last candidate when there is none.
\<close>

lemma find_library_selects_last:
  assumes "(case env_var of None \<Rightarrow> None | Some v \<Rightarrow> getenv e v) \<in> {None, Some []}"
      and "dlopen e fname = None" and "glob e glob_pat = Some g" and "1 < length g"
      and "mset (std_sort g) = mset g"
  shows "fst (jit_find_library e std_sort fname glob_pat env_var)
           = dlopen e (last (if \<exists>c\<in>set g. regular e c then filter (regular e) (std_sort g)
                             else std_sort g))"
proof -
  from assms(5) have s: "set (std_sort g) = set g" by (rule mset_eq_setD)
  from assms(4) have "g \<noteq> []" by auto
  with s have ne: "std_sort g \<noteq> []" by auto
  have f: "(filter (regular e) (std_sort g) \<noteq> []) = (\<exists>c\<in>set g. regular e c)"
    using s by (auto simp: filter_empty_conv)
  obtain chosen evs where c: "choose_candidate e (std_sort g) = (chosen, evs)"
    by (cases "choose_candidate e (std_sort g)")
  with choose_candidate_chosen[of e "std_sort g"] ne f
  have "chosen = Some (last (if \<exists>c\<in>set g. regular e c then filter (regular e) (std_sort g)
                             else std_sort g))"
    by auto
  with assms(1-4) c show ?thesis
    by (auto simp: jit_find_library_def Let_def split: option.splits)
qed

text \<open>
  Claim C9. When the designated variable is set to a non-empty string, that path is
  opened instead of the canonical name and no glob search is made, whether or not the
  load succeeds; a value of the empty string is treated as unset. The function has no
  failing exit: it returns a handle, and a handle that is not null is the one a
  \<open>dlopen\<close> call it made returned; when every load fails the handle is null.
\<close>

theorem find_library_env_override:
  "(\<forall>v p. env_var = Some v \<longrightarrow> getenv e v = Some p \<longrightarrow> p \<noteq> [] \<longrightarrow>
       jit_find_library e std_sort fname glob_pat env_var
         = (dlopen e p,
            Dlopen p # (if dlopen e p = None
                        then [Log Warn msg_unable_to_load [S p, S (dlerror e)]] else []))
       \<and> filter is_glob (snd (jit_find_library e std_sort fname glob_pat env_var)) = [])
   \<and> (\<forall>v. getenv e v = Some [] \<longrightarrow>
         jit_find_library e std_sort fname glob_pat (Some v)
           = jit_find_library (e\<lparr>getenv := (getenv e)(v := None)\<rparr>) std_sort fname glob_pat (Some v))
   \<and> (fst (jit_find_library e std_sort fname glob_pat env_var) \<noteq> None \<longrightarrow>
         (\<exists>p. Dlopen p \<in> set (snd (jit_find_library e std_sort fname glob_pat env_var))
              \<and> fst (jit_find_library e std_sort fname glob_pat env_var) = dlopen e p))
   \<and> ((\<forall>p. dlopen e p = None) \<longrightarrow>
         fst (jit_find_library e std_sort fname glob_pat env_var) = None)"
proof (intro conjI allI impI)
  fix v p
  assume "env_var = Some v" "getenv e v = Some p" "p \<noteq> []"
  then show "jit_find_library e std_sort fname glob_pat env_var
         = (dlopen e p,
            Dlopen p # (if dlopen e p = None
                        then [Log Warn msg_unable_to_load [S p, S (dlerror e)]] else []))"
    by (auto simp: jit_find_library_def Let_def)
  then show "filter is_glob (snd (jit_find_library e std_sort fname glob_pat env_var)) = []"
    by simp
next
  fix v
  assume "getenv e v = Some []"
  then show "jit_find_library e std_sort fname glob_pat (Some v)
           = jit_find_library (e\<lparr>getenv := (getenv e)(v := None)\<rparr>) std_sort fname glob_pat (Some v)"
    by (simp add: jit_find_library_def Let_def choose_candidate_getenv
          split: option.splits prod.splits)
next
  assume "fst (jit_find_library e std_sort fname glob_pat env_var) \<noteq> None"
  then show "\<exists>p. Dlopen p \<in> set (snd (jit_find_library e std_sort fname glob_pat env_var))
              \<and> fst (jit_find_library e std_sort fname glob_pat env_var) = dlopen e p"
    by (auto simp: jit_find_library_def Let_def split: option.splits if_splits prod.splits)
next
  assume "\<forall>p. dlopen e p = None"
  then show "fst (jit_find_library e std_sort fname glob_pat env_var) = None"
    by (auto simp: jit_find_library_def Let_def split: option.splits if_splits prod.splits)
qed

lemmas find_library_defs = jit_find_library_def choose_candidate_def env_llvm_def
  env_override_def insertion_sort_def is_digit_def deref_def strtol_def strtol_end_def
  long_to_int_def digits_value_def msg_unable_to_load_def Let_def

text \<open>C9 with the variable set to a path that loads, and to one that does not.\<close>

theorem find_library_env_override_witness:
  "jit_find_library (env_override ''/opt/llvm/libLLVM.so'') (insertion_sort version_less)
       ''libLLVM.so'' ''/usr/lib/libLLVM*.so'' (Some ''ENOKI_LIBLLVM_PATH'')
     = (Some 7, [Dlopen ''/opt/llvm/libLLVM.so''])
   \<and> jit_find_library (env_override ''/nowhere/libLLVM.so'') (insertion_sort version_less)
       ''libLLVM.so'' ''/usr/lib/libLLVM*.so'' (Some ''ENOKI_LIBLLVM_PATH'')
     = (None, [Dlopen ''/nowhere/libLLVM.so'',
               Log Warn msg_unable_to_load
                 [S ''/nowhere/libLLVM.so'', S ''cannot open shared object file'']])"
proof -
  have g1: "getenv (env_override ''/opt/llvm/libLLVM.so'') ''ENOKI_LIBLLVM_PATH''
              = Some ''/opt/llvm/libLLVM.so''"
    and g2: "getenv (env_override ''/nowhere/libLLVM.so'') ''ENOKI_LIBLLVM_PATH''
              = Some ''/nowhere/libLLVM.so''"
    by (simp_all add: env_override_def)
  have d1: "dlopen (env_override ''/opt/llvm/libLLVM.so'') ''/opt/llvm/libLLVM.so'' = Some 7"
    and d2: "dlopen (env_override ''/nowhere/libLLVM.so'') ''/nowhere/libLLVM.so'' = None"
    and d3: "dlerror (env_override ''/nowhere/libLLVM.so'') = ''cannot open shared object file''"
    by (simp_all add: env_override_def env_llvm_def)
  from find_library_env_override[of "Some ''ENOKI_LIBLLVM_PATH''"
         "env_override ''/opt/llvm/libLLVM.so''" "insertion_sort version_less"
         "''libLLVM.so''" "''/usr/lib/libLLVM*.so''"] g1 d1
  have "jit_find_library (env_override ''/opt/llvm/libLLVM.so'') (insertion_sort version_less)
       ''libLLVM.so'' ''/usr/lib/libLLVM*.so'' (Some ''ENOKI_LIBLLVM_PATH'')
     = (Some 7, [Dlopen ''/opt/llvm/libLLVM.so''])"
    by simp
  moreover from find_library_env_override[of "Some ''ENOKI_LIBLLVM_PATH''"
         "env_override ''/nowhere/libLLVM.so''" "insertion_sort version_less"
         "''libLLVM.so''" "''/usr/lib/libLLVM*.so''"] g2 d2 d3
  have "jit_find_library (env_override ''/nowhere/libLLVM.so'') (insertion_sort version_less)
       ''libLLVM.so'' ''/usr/lib/libLLVM*.so'' (Some ''ENOKI_LIBLLVM_PATH'')
     = (None, [Dlopen ''/nowhere/libLLVM.so'',
               Log Warn msg_unable_to_load
                 [S ''/nowhere/libLLVM.so'', S ''cannot open shared object file'']])"
    by simp
  ultimately show ?thesis by simp
qed

text \<open>
  Claim C4 asks that maximal digit runs compare numerically. The comparator stores the
  \<open>long\<close> that \<open>strtol\<close> returns in an \<open>int\<close>: the run \<open>4294967296\<close> becomes 0 and sorts
  before \<open>14\<close>. With the variable unset, the plain name not loadable and the two
  versions on disk, both regular files, the sorted array ends with version 14 and that
  file is opened (handle 14), not the numerically largest one (handle 99).
\<close>

theorem find_library_version_overflow:
  "long_to_int (strtol ''4294967296.so'') = 0
   \<and> version_less ''/usr/lib/libLLVM-4294967296.so'' ''/usr/lib/libLLVM-14.so''
   \<and> \<not> version_less ''/usr/lib/libLLVM-14.so'' ''/usr/lib/libLLVM-4294967296.so''
   \<and> insertion_sort version_less [''/usr/lib/libLLVM-14.so'', ''/usr/lib/libLLVM-4294967296.so'']
       = [''/usr/lib/libLLVM-4294967296.so'', ''/usr/lib/libLLVM-14.so'']
   \<and> fst (jit_find_library env_llvm (insertion_sort version_less)
            ''libLLVM.so'' ''/usr/lib/libLLVM*.so'' (Some ''ENOKI_LIBLLVM_PATH'')) = Some 14"
  by (simp add: find_library_defs)

section \<open>The LLVM backend\<close>

lemmas llvm_defs = jitc_llvm_init_def llvm_init_target_def llvm_init_width_def
  jitc_llvm_api_init_def jitc_llvm_api_shutdown_def
  jitc_llvm_api_has_def jitc_llvm_shutdown_def llvm_select_jit_def llvm_query_host_def
  llvm_vector_width_def strstr_def jitc_log_def llvm_emit_def Let_def

lemma api_has_only_if:
  "jitc_llvm_api_has env c st \<Longrightarrow> \<exists>syms. api st = Some syms \<and> set (group_symbols env c) \<subseteq> set syms"
  by (auto simp: jitc_llvm_api_has_def list_all_iff split: option.splits)

lemma llvm_emit_fields [simp]:
  "api (llvm_emit e st) = api st"
  "jitc_llvm_init_success (llvm_emit e st) = jitc_llvm_init_success st"
  "jitc_llvm_init_attempted (llvm_emit e st) = jitc_llvm_init_attempted st"
  by (simp_all add: llvm_emit_def)

lemma api_has_emit [simp]: "jitc_llvm_api_has env c (llvm_emit e st) = jitc_llvm_api_has env c st"
  by (simp add: jitc_llvm_api_has_def)

text \<open>The first two groups: the table is released and the result is false.\<close>

lemma llvm_init_lacks_core_or_pass_builder:
  assumes "\<not> jitc_llvm_init_attempted st" and "library env = Some syms"
      and "\<not> set (group_symbols env Core) \<subseteq> set syms
           \<or> (\<not> set (group_symbols env PassBuilderNew) \<subseteq> set syms
              \<and> \<not> set (group_symbols env PassBuilderLegacy) \<subseteq> set syms)"
  shows "fst (jitc_llvm_init env st) = False \<and> api (snd (jitc_llvm_init env st)) = None"
  using assms
  by (auto simp: jitc_llvm_init_def jitc_llvm_api_init_def jitc_llvm_api_shutdown_def
        jitc_llvm_api_has_def jitc_log_def list_all_iff)

text \<open>The third group, on a host with \<open>fma\<close> (or a 64-bit ARM build) and a vector width
  above 1: the table is released and the result is false, whatever the other groups.\<close>

lemma api_has_loaded:
  "api st = Some syms \<Longrightarrow> jitc_llvm_api_has env c st = (set (group_symbols env c) \<subseteq> set syms)"
  by (auto simp: jitc_llvm_api_has_def list_all_iff)

lemma llvm_select_jit_fails:
  assumes "api st = Some syms" and "jitc_llvm_init_success st"
      and "\<not> (set (group_symbols env OrcV2) \<subseteq> set syms \<and> orcv2_init_ok env)"
      and "\<not> (set (group_symbols env MCJIT) \<subseteq> set syms \<and> mcjit_init_ok env)"
  shows "fst (llvm_select_jit env st) = False \<and> api (snd (llvm_select_jit env st)) = None"
proof -
  have h: "jitc_llvm_api_has env c (llvm_emit e st) = (set (group_symbols env c) \<subseteq> set syms)"
          "jitc_llvm_api_has env c st = (set (group_symbols env c) \<subseteq> set syms)" for c e
    using assms(1) by (simp_all add: api_has_loaded)
  have sd: "api (jitc_llvm_shutdown s) = None" if "jitc_llvm_init_success s" for s
    using that by (simp add: jitc_llvm_shutdown_def jitc_llvm_api_shutdown_def Let_def)
  show ?thesis
    using assms(2-4)
    by (auto simp: llvm_select_jit_def Let_def h sd jitc_log_def)
qed

lemma llvm_query_host_api [simp]: "api (llvm_query_host env st) = api st"
  by (simp add: llvm_query_host_def Let_def)

lemma llvm_init_width_lacks_jit:
  assumes "api st = Some syms" and "1 < llvm_vector_width env (host_features env)"
      and "\<not> (set (group_symbols env OrcV2) \<subseteq> set syms \<and> orcv2_init_ok env)"
      and "\<not> (set (group_symbols env MCJIT) \<subseteq> set syms \<and> mcjit_init_ok env)"
  shows "fst (llvm_init_width env st) = False \<and> api (snd (llvm_init_width env st)) = None"
proof -
  let ?st3 = "if apple env \<and> aarch64 env
              then (llvm_emit (Call ''LLVMDisposeMessage'' []) st)
                     \<lparr>jitc_llvm_target_cpu :=
                        Some (if version_major env > 15 then ''apple-m1'' else ''apple-a14'')\<rparr>
              else st"
  let ?w = "llvm_vector_width env (host_features env)"
  let ?st4 = "?st3\<lparr>jitc_llvm_vector_width := ?w, jitc_llvm_init_success := (?w > 1),
                     jitc_llvm_max_align := ?w * 4\<rparr>"
  have a4: "api ?st4 = Some syms" "jitc_llvm_init_success ?st4"
    using assms(1,2) by simp_all
  from llvm_select_jit_fails[OF a4 assms(3,4)]
  obtain s6 where s6: "llvm_select_jit env ?st4 = (False, s6)" "api s6 = None"
    by (cases "llvm_select_jit env ?st4") auto
  have "llvm_init_width env st = (False, s6)"
    using a4(2) s6(1) by (simp add: llvm_init_width_def Let_def)
  with s6(2) show ?thesis by simp
qed

lemma llvm_init_lacks_jit:
  assumes "\<not> jitc_llvm_init_attempted st" and "library env = Some syms"
      and "aarch64 env \<or> strstr (host_features env) ''+fma''"
      and "1 < llvm_vector_width env (host_features env)"
      and "\<not> (set (group_symbols env OrcV2) \<subseteq> set syms \<and> orcv2_init_ok env)"
      and "\<not> (set (group_symbols env MCJIT) \<subseteq> set syms \<and> mcjit_init_ok env)"
  shows "fst (jitc_llvm_init env st) = False \<and> api (snd (jitc_llvm_init env st)) = None"
proof -
  let ?st1 = "(llvm_emit (Call ''jitc_llvm_api_init'' []) (st\<lparr>jitc_llvm_init_attempted := True\<rparr>))\<lparr>api := Some syms\<rparr>"
  have i: "jitc_llvm_api_init env (st\<lparr>jitc_llvm_init_attempted := True\<rparr>) = (True, ?st1)"
    using assms(2) by (simp add: jitc_llvm_api_init_def)
  have w: "fst (llvm_init_width env (llvm_query_host env ?st1)) = False
           \<and> api (snd (llvm_init_width env (llvm_query_host env ?st1))) = None"
    by (rule llvm_init_width_lacks_jit[OF _ assms(4,5,6)]) simp
  have t: "fst (llvm_init_target env ?st1) = False \<and> api (snd (llvm_init_target env ?st1)) = None"
    using assms(3) w by (auto simp: llvm_init_target_def Let_def)
  have sd: "api (jitc_llvm_api_shutdown s) = None" for s
    by (simp add: jitc_llvm_api_shutdown_def)
  show ?thesis
    using assms(1) t by (simp add: jitc_llvm_init_def i sd)
qed

text \<open>
  Claim C8 asks that a library without ORCv2 and without MCJIT leads to a clean
  shutdown that releases the API table. On a 64-bit ARM Linux host the vector width is
  1, so \<open>jitc_llvm_init_success\<close> is false when \<open>jitc_llvm_shutdown\<close> is called and the
  call returns at once: the result is false, the last entry of the trace is the
  warning that the backend is shut down, and the API table is still loaded. On the
  x86-64 host with AVX the same library is released.
\<close>

theorem llvm_init_keeps_api_table:
  "\<not> jitc_llvm_api_has env_arm_no_jit OrcV2 (snd (jitc_llvm_init env_arm_no_jit llvm_state0))
   \<and> \<not> jitc_llvm_api_has env_arm_no_jit MCJIT (snd (jitc_llvm_init env_arm_no_jit llvm_state0))
   \<and> fst (jitc_llvm_init env_arm_no_jit llvm_state0) = False
   \<and> last (llvm_trace (snd (jitc_llvm_init env_arm_no_jit llvm_state0))) = Log Warn msg_no_jit []
   \<and> api (snd (jitc_llvm_init env_arm_no_jit llvm_state0)) = library env_arm_no_jit
   \<and> filter (\<lambda>e. e = Call ''jitc_llvm_api_shutdown'' [])
        (llvm_trace (snd (jitc_llvm_init env_arm_no_jit llvm_state0))) = []
   \<and> fst (jitc_llvm_init env_x86_no_jit llvm_state0) = False
   \<and> api (snd (jitc_llvm_init env_x86_no_jit llvm_state0)) = None"
proof -
  have arm: "jitc_llvm_init env_arm_no_jit llvm_state0 =
    (False,
     llvm_state0\<lparr>jitc_llvm_init_attempted := True, jitc_llvm_disasm_ctx := True,
       jitc_llvm_context := True,
       jitc_llvm_target_triple := Some ''aarch64-unknown-linux-gnu'',
       jitc_llvm_target_cpu := Some ''neoverse-n1'',
       jitc_llvm_target_features := Some ''+neon,+fp-armv8,+crc'',
       jitc_llvm_vector_width := 1, jitc_llvm_max_align := 4,
       api := library env_arm_no_jit,
       llvm_trace :=
         [Call ''jitc_llvm_api_init'' [], Call ''LLVMLinkInMCJIT'' [],
          Call ''LLVMInitializeDrJitTargetInfo'' [], Call ''LLVMInitializeDrJitTarget'' [],
          Call ''LLVMInitializeDrJitTargetMC'' [], Call ''LLVMInitializeDrJitAsmPrinter'' [],
          Call ''LLVMInitializeDrJitDisassembler'' [],
          Log Warn msg_no_vector_isa [], Log Warn msg_no_jit []]\<rparr>)"
    by (simp add: llvm_defs env_arm_no_jit_def llvm_state0_def sublist_Cons_right)
  have x86: "fst (jitc_llvm_init env_x86_no_jit llvm_state0) = False
             \<and> api (snd (jitc_llvm_init env_x86_no_jit llvm_state0)) = None"
    by (rule llvm_init_lacks_jit)
       (simp_all add: env_x86_no_jit_def env_arm_no_jit_def llvm_state0_def
          llvm_vector_width_def strstr_def sublist_Cons_right)
  show ?thesis
    unfolding arm using x86
    by (simp add: jitc_llvm_api_has_def env_arm_no_jit_def llvm_state0_def)
qed

end
